theory Spec2Isabelle
  imports Main "HOL-Library.Multiset" "HOL-Library.Option_ord"
begin

section \<open>JavaScript values and JSON text\<close>

text \<open>
  The values that \<^verbatim>\<open>server.js\<close> hands to \<^verbatim>\<open>res.json\<close>, \<^verbatim>\<open>JSON.stringify\<close> and gets back
  from \<^verbatim>\<open>JSON.parse\<close>. A \<open>JDate\<close> is a JavaScript \<^verbatim>\<open>Date\<close> (milliseconds since the epoch):
  the \<^verbatim>\<open>pg\<close> driver returns the TIMESTAMP columns as \<^verbatim>\<open>Date\<close> objects. Numbers are the
  integers of the \<^verbatim>\<open>id\<close> column. An object is the list of its members in insertion order.
  A \<open>char\<close> stands for one character (code points below 256).
\<close>

datatype jsval =
    JNull
  | JBool bool
  | JNum int
  | JStr string
  | JDate nat
  | JArr "jsval list"
  | JObj "(string \<times> jsval) list"

subsection \<open>Numbers and dates as text\<close>

definition digit :: "nat \<Rightarrow> char" where
  "digit d = char_of (48 + d)"

fun show_nat :: "nat \<Rightarrow> string" where
  "show_nat n = (if n < 10 then [digit n] else show_nat (n div 10) @ [digit (n mod 10)])"

declare show_nat.simps [simp del]

definition show_int :: "int \<Rightarrow> string" where
  "show_int i = (if i < 0 then CHR ''-'' # show_nat (nat (- i)) else show_nat (nat i))"

definition pad :: "nat \<Rightarrow> nat \<Rightarrow> string" where
  "pad k n = replicate (k - length (show_nat n)) CHR ''0'' @ show_nat n"

text \<open>
  \<^verbatim>\<open>Date.prototype.toISOString\<close> for a time value at or after the epoch: the proleptic
  Gregorian date of the day number, then the time of day, in UTC. Years beyond 9999 are
  written in the expanded form with a sign and six digits.
\<close>

definition civil_from_days :: "nat \<Rightarrow> nat \<times> nat \<times> nat" where
  "civil_from_days days =
     (let z = days + 719468;
          era = z div 146097;
          doe = z mod 146097;
          yoe = (doe - doe div 1460 + doe div 36524 - doe div 146096) div 365;
          doy = doe - (365 * yoe + yoe div 4 - yoe div 100);
          mp = (5 * doy + 2) div 153;
          d = doy - (153 * mp + 2) div 5 + 1;
          m = (if mp < 10 then mp + 3 else mp - 9);
          y = yoe + era * 400 + (if m \<le> 2 then 1 else 0)
      in (y, m, d))"

definition toISOString :: "nat \<Rightarrow> string" where
  "toISOString ms =
     (case civil_from_days (ms div 86400000) of (y, m, d) \<Rightarrow>
        (if y \<le> 9999 then pad 4 y else CHR ''+'' # pad 6 y)
        @ ''-'' @ pad 2 m @ ''-'' @ pad 2 d
        @ ''T'' @ pad 2 (ms div 3600000 mod 24)
        @ '':'' @ pad 2 (ms div 60000 mod 60)
        @ '':'' @ pad 2 (ms div 1000 mod 60)
        @ ''.'' @ pad 3 (ms mod 1000) @ ''Z'')"

text \<open>The largest time value of a valid \<^verbatim>\<open>Date\<close>; beyond it the \<^verbatim>\<open>Date\<close> is invalid.\<close>

definition max_time_value :: nat where
  "max_time_value = 8640000000000000"

subsection \<open>\<^verbatim>\<open>JSON.stringify\<close>\<close>

definition hex_digit :: "nat \<Rightarrow> char" where
  "hex_digit d = (if d < 10 then char_of (48 + d) else char_of (87 + d))"

text \<open>
  \<^verbatim>\<open>QuoteJSONString\<close>: the quotation mark and the reverse solidus are escaped, the control
  characters below U+0020 are written with their short escape or as \<^verbatim>\<open>\u00xx\<close>.
\<close>

definition escape_char :: "char \<Rightarrow> string" where
  "escape_char c =
     (if c = CHR 0x22 then [CHR 0x5C, CHR 0x22]
      else if c = CHR 0x5C then [CHR 0x5C, CHR 0x5C]
      else if c = CHR 0x08 then [CHR 0x5C, CHR ''b'']
      else if c = CHR 0x0C then [CHR 0x5C, CHR ''f'']
      else if c = CHR 0x0A then [CHR 0x5C, CHR ''n'']
      else if c = CHR 0x0D then [CHR 0x5C, CHR ''r'']
      else if c = CHR 0x09 then [CHR 0x5C, CHR ''t'']
      else if (of_char c :: nat) < 32 then
        [CHR 0x5C, CHR ''u'', CHR ''0'', CHR ''0'',
         hex_digit (of_char c div 16), hex_digit (of_char c mod 16)]
      else [c])"

definition quote :: "string \<Rightarrow> string" where
  "quote s = CHR 0x22 # concat (map escape_char s) @ [CHR 0x22]"

text \<open>
  \<^verbatim>\<open>JSON.stringify(value)\<close> with no replacer and no indentation. A \<^verbatim>\<open>Date\<close> is written
  through its \<^verbatim>\<open>toJSON\<close>: the ISO string, or \<^verbatim>\<open>null\<close> for an invalid \<^verbatim>\<open>Date\<close>.
\<close>

fun JSON_stringify :: "jsval \<Rightarrow> string"
  and stringify_elements :: "jsval list \<Rightarrow> string"
  and stringify_members :: "(string \<times> jsval) list \<Rightarrow> string" where
  "JSON_stringify JNull = ''null''"
| "JSON_stringify (JBool b) = (if b then ''true'' else ''false'')"
| "JSON_stringify (JNum i) = show_int i"
| "JSON_stringify (JStr s) = quote s"
| "JSON_stringify (JDate ms) = (if ms \<le> max_time_value then quote (toISOString ms) else ''null'')"
| "JSON_stringify (JArr vs) = ''['' @ stringify_elements vs @ '']''"
| "JSON_stringify (JObj kvs) = ''{'' @ stringify_members kvs @ ''}''"
| "stringify_elements [] = []"
| "stringify_elements [v] = JSON_stringify v"
| "stringify_elements (v # u # vs) = JSON_stringify v @ '','' @ stringify_elements (u # vs)"
| "stringify_members [] = []"
| "stringify_members [(k, v)] = quote k @ '':'' @ JSON_stringify v"
| "stringify_members ((k, v) # m # kvs) =
     quote k @ '':'' @ JSON_stringify v @ '','' @ stringify_members (m # kvs)"

subsection \<open>\<^verbatim>\<open>JSON.parse\<close>\<close>

text \<open>
  \<^verbatim>\<open>JSON.parse(text)\<close> on the texts that \<^verbatim>\<open>JSON.stringify\<close> writes: no insignificant white
  space, integer numbers, escapes of characters below 256, member names as they come.
  \<open>None\<close> is the \<^verbatim>\<open>SyntaxError\<close> that \<^verbatim>\<open>JSON.parse\<close> throws; a text outside this form
  (white space between tokens, a fraction or an exponent) is answered \<open>None\<close> as well. The
  only texts that reach \<^verbatim>\<open>JSON.parse\<close> in \<^verbatim>\<open>server.js\<close> are the values of the cache key.
\<close>

definition is_digit :: "char \<Rightarrow> bool" where
  "is_digit c \<longleftrightarrow> 48 \<le> (of_char c :: nat) \<and> (of_char c :: nat) \<le> 57"

definition digits_value :: "string \<Rightarrow> nat" where
  "digits_value ds = foldl (\<lambda>n c. 10 * n + (of_char c - 48)) 0 ds"

definition parse_nat :: "string \<Rightarrow> (nat \<times> string) option" where
  "parse_nat s =
     (let ds = takeWhile is_digit s in
      if ds = [] \<or> (1 < length ds \<and> hd ds = CHR ''0'') then None
      else Some (digits_value ds, dropWhile is_digit s))"

definition parse_number :: "string \<Rightarrow> (jsval \<times> string) option" where
  "parse_number s =
     (case s of
        [] \<Rightarrow> None
      | c # cs \<Rightarrow>
          if c = CHR ''-'' then
            (case parse_nat cs of None \<Rightarrow> None | Some (n, r) \<Rightarrow> Some (JNum (- int n), r))
          else
            (case parse_nat s of None \<Rightarrow> None | Some (n, r) \<Rightarrow> Some (JNum (int n), r)))"

definition hex_value :: "char \<Rightarrow> nat option" where
  "hex_value c =
     (let n = (of_char c :: nat) in
      if 48 \<le> n \<and> n \<le> 57 then Some (n - 48)
      else if 97 \<le> n \<and> n \<le> 102 then Some (n - 87)
      else if 65 \<le> n \<and> n \<le> 70 then Some (n - 55)
      else None)"

fun hex4 :: "string \<Rightarrow> nat option" where
  "hex4 [a, b, c, d] =
     (case (hex_value a, hex_value b, hex_value c, hex_value d) of
        (Some p, Some q, Some r, Some s) \<Rightarrow> Some (((p * 16 + q) * 16 + r) * 16 + s)
      | _ \<Rightarrow> None)"
| "hex4 _ = None"

definition unescape :: "char \<Rightarrow> char option" where
  "unescape e =
     (if e = CHR 0x22 then Some (CHR 0x22)
      else if e = CHR 0x5C then Some (CHR 0x5C)
      else if e = CHR ''/'' then Some (CHR ''/'')
      else if e = CHR ''b'' then Some (CHR 0x08)
      else if e = CHR ''f'' then Some (CHR 0x0C)
      else if e = CHR ''n'' then Some (CHR 0x0A)
      else if e = CHR ''r'' then Some (CHR 0x0D)
      else if e = CHR ''t'' then Some (CHR 0x09)
      else None)"

definition cons_char :: "char \<Rightarrow> (string \<times> string) option \<Rightarrow> (string \<times> string) option" where
  "cons_char c p = (case p of None \<Rightarrow> None | Some (s, r) \<Rightarrow> Some (c # s, r))"

text \<open>The characters of a string after its opening quotation mark, up to the closing one.\<close>

function parse_chars :: "string \<Rightarrow> (string \<times> string) option" where
  "parse_chars [] = None"
| "parse_chars (c # cs) =
     (if c = CHR 0x22 then Some ([], cs)
      else if c = CHR 0x5C then
        (case cs of
           [] \<Rightarrow> None
         | e # es \<Rightarrow>
             if e = CHR ''u'' then
               (case hex4 (take 4 es) of
                  None \<Rightarrow> None
                | Some n \<Rightarrow> if n < 256 then cons_char (char_of n) (parse_chars (drop 4 es)) else None)
             else
               (case unescape e of
                  None \<Rightarrow> None
                | Some d \<Rightarrow> cons_char d (parse_chars es)))
      else if (of_char c :: nat) < 32 then None
      else cons_char c (parse_chars cs))"
  by pat_completeness auto
termination
  by (relation "measure length") auto

declare parse_chars.simps [simp del]

definition literal :: "string \<Rightarrow> jsval \<Rightarrow> string \<Rightarrow> (jsval \<times> string) option" where
  "literal word v s =
     (if take (length word) s = word then Some (v, drop (length word) s) else None)"

text \<open>
  The recursive descent, with the number of nested calls bounded by \<open>n\<close>: every call
  consumes a character, so the length of the text is enough (\<open>JSON_parse\<close> below).
\<close>

fun parse_value :: "nat \<Rightarrow> string \<Rightarrow> (jsval \<times> string) option"
  and parse_elements :: "nat \<Rightarrow> string \<Rightarrow> (jsval list \<times> string) option"
  and parse_members :: "nat \<Rightarrow> string \<Rightarrow> ((string \<times> jsval) list \<times> string) option" where
  "parse_value 0 s = None"
| "parse_value (Suc n) s =
     (case s of
        [] \<Rightarrow> None
      | c # cs \<Rightarrow>
          if c = CHR 0x22 then
            (case parse_chars cs of None \<Rightarrow> None | Some (x, r) \<Rightarrow> Some (JStr x, r))
          else if c = CHR ''['' then
            (case cs of
               [] \<Rightarrow> None
             | d # ds \<Rightarrow>
                 if d = CHR '']'' then Some (JArr [], ds)
                 else (case parse_elements n cs of
                         None \<Rightarrow> None
                       | Some (vs, r) \<Rightarrow> Some (JArr vs, r)))
          else if c = CHR ''{'' then
            (case cs of
               [] \<Rightarrow> None
             | d # ds \<Rightarrow>
                 if d = CHR ''}'' then Some (JObj [], ds)
                 else (case parse_members n cs of
                         None \<Rightarrow> None
                       | Some (kvs, r) \<Rightarrow> Some (JObj kvs, r)))
          else if c = CHR ''n'' then literal ''null'' JNull s
          else if c = CHR ''t'' then literal ''true'' (JBool True) s
          else if c = CHR ''f'' then literal ''false'' (JBool False) s
          else parse_number s)"
| "parse_elements 0 s = None"
| "parse_elements (Suc n) s =
     (case parse_value n s of
        None \<Rightarrow> None
      | Some (v, r) \<Rightarrow>
          (case r of
             [] \<Rightarrow> None
           | c # cs \<Rightarrow>
               if c = CHR '']'' then Some ([v], cs)
               else if c = CHR '','' then
                 (case parse_elements n cs of
                    None \<Rightarrow> None
                  | Some (vs, r') \<Rightarrow> Some (v # vs, r'))
               else None))"
| "parse_members 0 s = None"
| "parse_members (Suc n) s =
     (case s of
        [] \<Rightarrow> None
      | q # s1 \<Rightarrow>
          if q \<noteq> CHR 0x22 then None
          else
            (case parse_chars s1 of
               None \<Rightarrow> None
             | Some (k, s2) \<Rightarrow>
                 (case s2 of
                    [] \<Rightarrow> None
                  | colon # s3 \<Rightarrow>
                      if colon \<noteq> CHR '':'' then None
                      else
                        (case parse_value n s3 of
                           None \<Rightarrow> None
                         | Some (v, r) \<Rightarrow>
                             (case r of
                                [] \<Rightarrow> None
                              | c # cs \<Rightarrow>
                                  if c = CHR ''}'' then Some ([(k, v)], cs)
                                  else if c = CHR '','' then
                                    (case parse_members n cs of
                                       None \<Rightarrow> None
                                     | Some (kvs, r') \<Rightarrow> Some ((k, v) # kvs, r'))
                                  else None)))))"

definition JSON_parse :: "string \<Rightarrow> jsval option" where
  "JSON_parse s =
     (case parse_value (length s) s of
        Some (v, []) \<Rightarrow> Some v
      | _ \<Rightarrow> None)"

text \<open>
  What \<^verbatim>\<open>JSON.stringify\<close> writes for a value and \<^verbatim>\<open>JSON.parse\<close> reads back: a
  \<^verbatim>\<open>Date\<close> has become its ISO string (\<^verbatim>\<open>null\<close> when invalid), everything else is itself.
\<close>

fun toJSON :: "jsval \<Rightarrow> jsval" where
  "toJSON (JDate ms) = (if ms \<le> max_time_value then JStr (toISOString ms) else JNull)"
| "toJSON (JArr vs) = JArr (map toJSON vs)"
| "toJSON (JObj kvs) = JObj (map (\<lambda>(k, v). (k, toJSON v)) kvs)"
| "toJSON v = v"

section \<open>The collaborators: the \<^verbatim>\<open>tasks\<close> table and the Redis key space\<close>

text \<open>
  Time is the reading of one clock shared by the three machines, in microseconds since the
  epoch (the resolution of a TIMESTAMP column). Redis and JavaScript read it in
  milliseconds.
\<close>

type_synonym time = nat

definition millis :: "time \<Rightarrow> nat" where
  "millis t = t div 1000"

text \<open>
  A row of \<^verbatim>\<open>tasks\<close> (\<^verbatim>\<open>01-init.sql\<close>). Only \<^verbatim>\<open>id\<close> (the primary key) and \<^verbatim>\<open>title\<close> are
  NOT NULL; the other columns may hold NULL, written \<open>None\<close>.
\<close>

record task =
  id' :: int
  title :: string
  description :: "string option"
  completed :: "bool option"
  created_at :: "time option"
  updated_at :: "time option"

text \<open>
  What a rejected promise carries: a collaborator that could not be reached or answered
  with an error of its own (\<open>Rejected\<close>, with its message), the errors PostgreSQL raises
  for this \<^verbatim>\<open>INSERT\<close>, and the \<^verbatim>\<open>SyntaxError\<close> of \<^verbatim>\<open>JSON.parse\<close>.
\<close>

datatype error =
    Rejected string
  | NotNullViolation
  | StringDataRightTruncation
  | CharacterNotInRepertoire
  | UniqueViolation
  | SequenceLimitExceeded
  | SyntaxError

text \<open>The calls that \<^verbatim>\<open>server.js\<close> makes on \<^verbatim>\<open>redisClient\<close> and \<^verbatim>\<open>pool\<close>, with their arguments.\<close>

datatype call =
    Redis_get string
  | Redis_setEx string nat string
  | Redis_del string
  | Pg_query string "string option list"

text \<open>
  The state: the table in heap order, the last value of the sequence behind \<^verbatim>\<open>id SERIAL\<close>,
  the Redis keys with their value and their expiry time in milliseconds (if any), and the
  journal of the calls issued so far.
\<close>

record world =
  tasks :: "task list"
  tasks_id_seq :: int
  redis :: "string \<rightharpoonup> string \<times> nat option"
  calls :: "call list"

text \<open>
  What a request meets and does not decide: the time, which calls are rejected (with the
  message of the error; a rejected call has had no effect at the collaborator), and the
  order in which the executor of the store delivers rows that \<^verbatim>\<open>ORDER BY\<close> does not tell
  apart. A request is handled at one instant of the clock, and requests do not overlap.
\<close>

record env =
  now :: time
  fails :: "call \<Rightarrow> string option"
  tie_order :: "task \<Rightarrow> nat"

definition issue :: "call \<Rightarrow> world \<Rightarrow> world" where
  "issue c w = w\<lparr>calls := calls w @ [c]\<rparr>"

subsection \<open>Redis\<close>

text \<open>A key with an expiry time is gone once the clock of Redis is past that time.\<close>

definition expired :: "env \<Rightarrow> nat option \<Rightarrow> bool" where
  "expired e expiry = (case expiry of None \<Rightarrow> False | Some t \<Rightarrow> t < millis (now e))"

definition lookup :: "env \<Rightarrow> world \<Rightarrow> string \<Rightarrow> string option" where
  "lookup e w key =
     (case redis w key of
        None \<Rightarrow> None
      | Some (v, expiry) \<Rightarrow> if expired e expiry then None else Some v)"

definition redis_get :: "env \<Rightarrow> string \<Rightarrow> world \<Rightarrow> (error + string option) \<times> world" where
  "redis_get e key w =
     (case fails e (Redis_get key) of
        Some msg \<Rightarrow> (Inl (Rejected msg), issue (Redis_get key) w)
      | None \<Rightarrow> (Inr (lookup e w key), issue (Redis_get key) w))"

definition redis_setEx :: "env \<Rightarrow> string \<Rightarrow> nat \<Rightarrow> string \<Rightarrow> world \<Rightarrow> error option \<times> world" where
  "redis_setEx e key seconds v w =
     (case fails e (Redis_setEx key seconds v) of
        Some msg \<Rightarrow> (Some (Rejected msg), issue (Redis_setEx key seconds v) w)
      | None \<Rightarrow>
          (None, issue (Redis_setEx key seconds v)
                   (w\<lparr>redis := (redis w)(key \<mapsto> (v, Some (millis (now e) + seconds * 1000)))\<rparr>)))"

definition redis_del :: "env \<Rightarrow> string \<Rightarrow> world \<Rightarrow> error option \<times> world" where
  "redis_del e key w =
     (case fails e (Redis_del key) of
        Some msg \<Rightarrow> (Some (Rejected msg), issue (Redis_del key) w)
      | None \<Rightarrow> (None, issue (Redis_del key) (w\<lparr>redis := (redis w)(key := None)\<rparr>)))"

subsection \<open>PostgreSQL\<close>

definition select_sql :: string where
  "select_sql = ''SELECT * FROM tasks ORDER BY created_at DESC''"

definition insert_sql :: string where
  "insert_sql = ''INSERT INTO tasks (title, description) VALUES ($1, $2) RETURNING *''"

text \<open>
  \<^verbatim>\<open>ORDER BY created_at DESC\<close>: NULLs first, then the later time first. The sort key is
  ascending for that order (\<open>None\<close> is below every \<open>Some\<close>). Rows with the same
  \<^verbatim>\<open>created_at\<close> come in the order of the executor, which the query leaves open.
\<close>

definition desc_key :: "task \<Rightarrow> int option" where
  "desc_key r = map_option (\<lambda>t. - int t) (created_at r)"

definition order_by_created_at_desc :: "(task \<Rightarrow> nat) \<Rightarrow> task list \<Rightarrow> task list" where
  "order_by_created_at_desc tie rows = sort_key desc_key (sort_key tie rows)"

definition pg_query_select :: "env \<Rightarrow> world \<Rightarrow> (error + task list) \<times> world" where
  "pg_query_select e w =
     (case fails e (Pg_query select_sql []) of
        Some msg \<Rightarrow> (Inl (Rejected msg), issue (Pg_query select_sql []) w)
      | None \<Rightarrow>
          (Inr (order_by_created_at_desc (tie_order e) (tasks w)),
           issue (Pg_query select_sql []) w))"

text \<open>
  \<^verbatim>\<open>VARCHAR(255)\<close>: a string of more than 255 characters is an error, unless the excess
  is all spaces; then the string is cut to 255 characters.
\<close>

definition too_long :: "string option \<Rightarrow> bool" where
  "too_long p =
     (case p of None \<Rightarrow> False | Some s \<Rightarrow> \<exists>c \<in> set (drop 255 s). c \<noteq> CHR '' '')"

definition has_nul :: "string option \<Rightarrow> bool" where
  "has_nul p = (case p of None \<Rightarrow> False | Some s \<Rightarrow> CHR 0x00 \<in> set s)"

definition serial_max :: int where
  "serial_max = 2147483647"

text \<open>
  The \<^verbatim>\<open>INSERT\<close> of \<^verbatim>\<open>POST /api/tasks\<close>; \<open>None\<close> is a parameter that is \<^verbatim>\<open>undefined\<close> or
  \<^verbatim>\<open>null\<close> in JavaScript, sent as NULL. The parameters are converted to the column types
  first. The row is then built from the defaults: \<^verbatim>\<open>id\<close> from the sequence, \<^verbatim>\<open>completed\<close>
  FALSE, both timestamps \<^verbatim>\<open>CURRENT_TIMESTAMP\<close>. The constraints are checked on the row that
  was built, so a row they turn down has used up a value of the sequence.
  \<^verbatim>\<open>RETURNING *\<close> answers the inserted row.
\<close>

definition pg_query_insert ::
  "env \<Rightarrow> string option \<Rightarrow> string option \<Rightarrow> world \<Rightarrow> (error + task) \<times> world" where
  "pg_query_insert e p1 p2 w =
     (let w1 = issue (Pg_query insert_sql [p1, p2]) w in
      case fails e (Pg_query insert_sql [p1, p2]) of
        Some msg \<Rightarrow> (Inl (Rejected msg), w1)
      | None \<Rightarrow>
          if has_nul p1 \<or> has_nul p2 then (Inl CharacterNotInRepertoire, w1)
          else if too_long p1 then (Inl StringDataRightTruncation, w1)
          else if serial_max \<le> tasks_id_seq w then (Inl SequenceLimitExceeded, w1)
          else
            (let w2 = w1\<lparr>tasks_id_seq := tasks_id_seq w + 1\<rparr> in
             case p1 of
               None \<Rightarrow> (Inl NotNullViolation, w2)
             | Some s \<Rightarrow>
                 if tasks_id_seq w + 1 \<in> set (map id' (tasks w)) then (Inl UniqueViolation, w2)
                 else
                   (let row = \<lparr>id' = tasks_id_seq w + 1, title = take 255 s, description = p2,
                               completed = Some False,
                               created_at = Some (now e), updated_at = Some (now e)\<rparr>
                    in (Inr row, w2\<lparr>tasks := tasks w @ [row]\<rparr>))))"

text \<open>
  The trigger \<^verbatim>\<open>update_tasks_updated_at\<close>: before a row is updated, its \<^verbatim>\<open>updated_at\<close> is
  set to \<^verbatim>\<open>CURRENT_TIMESTAMP\<close>. No statement of \<^verbatim>\<open>server.js\<close> is an \<^verbatim>\<open>UPDATE\<close>.
\<close>

definition update_updated_at_column :: "time \<Rightarrow> task \<Rightarrow> task" where
  "update_updated_at_column current_timestamp new = new\<lparr>updated_at := Some current_timestamp\<rparr>"

text \<open>
  An \<^verbatim>\<open>UPDATE tasks SET completed = ... WHERE id = ...\<close> issued on the database by hand
  (with \<^verbatim>\<open>psql\<close>, say). The trigger fires on the new version of the row. PostgreSQL stores
  that version as a new tuple, behind the tuples of the table, and the old version is dead:
  in the heap the row has moved to the end.
\<close>

definition update_completed :: "time \<Rightarrow> int \<Rightarrow> bool \<Rightarrow> world \<Rightarrow> world" where
  "update_completed current_timestamp i c w =
     w\<lparr>tasks := [r \<leftarrow> tasks w. id' r \<noteq> i]
          @ map (\<lambda>r. update_updated_at_column current_timestamp (r\<lparr>completed := Some c\<rparr>))
              [r \<leftarrow> tasks w. id' r = i]\<rparr>"

text \<open>
  \<^verbatim>\<open>01-init.sql\<close> on an empty database: the four sample rows are inserted by one statement,
  so they share its \<^verbatim>\<open>CURRENT_TIMESTAMP\<close>.
\<close>

definition sample :: "time \<Rightarrow> int \<Rightarrow> string \<Rightarrow> string \<Rightarrow> bool \<Rightarrow> task" where
  "sample t i ttl d c =
     \<lparr>id' = i, title = ttl, description = Some d, completed = Some c,
      created_at = Some t, updated_at = Some t\<rparr>"

definition init_script :: "time \<Rightarrow> world" where
  "init_script t =
     \<lparr>tasks =
        [sample t 1 ''Learn Docker'' ''Understand containerization and Docker basics'' True,
         sample t 2 ''Learn Kubernetes'' ''Master pod, deployment, and service concepts'' False,
         sample t 3 ''Setup EKS Cluster'' ''Create production-ready EKS cluster on AWS'' False,
         sample t 4 ''Implement CI/CD'' ''Setup Jenkins pipeline for automated deployments'' False],
      tasks_id_seq = 4,
      redis = Map.empty,
      calls = []\<rparr>"

section \<open>\<^verbatim>\<open>server.js\<close>\<close>

text \<open>
  A response: the status code and what \<^verbatim>\<open>res.json\<close> was given. For
  \<^verbatim>\<open>{ error: err.message }\<close> the error itself is kept, whose message the body carries.
\<close>

datatype payload = Json jsval | Error_message error

record response =
  status :: nat
  body :: payload

text \<open>
  A row as the JavaScript object that \<^verbatim>\<open>pg\<close> builds, columns in table order. A timestamp
  becomes the \<^verbatim>\<open>Date\<close> of its millisecond (server and database both keep UTC).
\<close>

definition nullable :: "('a \<Rightarrow> jsval) \<Rightarrow> 'a option \<Rightarrow> jsval" where
  "nullable f x = (case x of None \<Rightarrow> JNull | Some y \<Rightarrow> f y)"

definition row_js :: "task \<Rightarrow> jsval" where
  "row_js r =
     JObj [(''id'', JNum (id' r)),
           (''title'', JStr (title r)),
           (''description'', nullable JStr (description r)),
           (''completed'', nullable JBool (completed r)),
           (''created_at'', nullable (\<lambda>t. JDate (millis t)) (created_at r)),
           (''updated_at'', nullable (\<lambda>t. JDate (millis t)) (updated_at r))]"

definition rows_js :: "task list \<Rightarrow> jsval" where
  "rows_js rows = JArr (map row_js rows)"

definition failure :: "error \<Rightarrow> response" where
  "failure err = \<lparr>status = 500, body = Error_message err\<rparr>"

definition cacheKey :: string where
  "cacheKey = ''tasks:all''"

text \<open>\<^verbatim>\<open>app.get('/health', ...)\<close>\<close>

definition get_health :: "env \<Rightarrow> world \<Rightarrow> response \<times> world" where
  "get_health e w =
     (\<lparr>status = 200,
       body = Json (JObj [(''status'', JStr ''healthy''), (''timestamp'', JDate (millis (now e)))])\<rparr>,
      w)"

text \<open>
  \<^verbatim>\<open>app.get('/api/tasks', ...)\<close>. \<^verbatim>\<open>if (cached)\<close> holds for a string that is not empty;
  \<^verbatim>\<open>null\<close> (no such key) and the empty string go on to the query.
\<close>

definition from_database :: "env \<Rightarrow> world \<Rightarrow> response \<times> world" where
  "from_database e w =
     (case pg_query_select e w of
        (Inl err, w1) \<Rightarrow> (failure err, w1)
      | (Inr rows, w1) \<Rightarrow>
          (case redis_setEx e cacheKey 60 (JSON_stringify (rows_js rows)) w1 of
             (Some err, w2) \<Rightarrow> (failure err, w2)
           | (None, w2) \<Rightarrow>
               (\<lparr>status = 200,
                 body = Json (JObj [(''source'', JStr ''database''), (''data'', rows_js rows)])\<rparr>,
                w2)))"

definition get_api_tasks :: "env \<Rightarrow> world \<Rightarrow> response \<times> world" where
  "get_api_tasks e w =
     (case redis_get e cacheKey w of
        (Inl err, w1) \<Rightarrow> (failure err, w1)
      | (Inr None, w1) \<Rightarrow> from_database e w1
      | (Inr (Some cached), w1) \<Rightarrow>
          if cached \<noteq> [] then
            (case JSON_parse cached of
               None \<Rightarrow> (failure SyntaxError, w1)
             | Some v \<Rightarrow>
                 (\<lparr>status = 200,
                   body = Json (JObj [(''source'', JStr ''cache''), (''data'', v)])\<rparr>,
                  w1))
          else from_database e w1)"

text \<open>
  \<^verbatim>\<open>app.post('/api/tasks', ...)\<close>, with the \<^verbatim>\<open>title\<close> and \<^verbatim>\<open>description\<close> of \<^verbatim>\<open>req.body\<close>,
  the object that \<^verbatim>\<open>express.json()\<close> parsed from the request; \<open>None\<close> is a member that is
  absent or \<^verbatim>\<open>null\<close>.
\<close>

definition post_api_tasks ::
  "env \<Rightarrow> string option \<Rightarrow> string option \<Rightarrow> world \<Rightarrow> response \<times> world" where
  "post_api_tasks e title_in description_in w =
     (case pg_query_insert e title_in description_in w of
        (Inl err, w1) \<Rightarrow> (failure err, w1)
      | (Inr row, w1) \<Rightarrow>
          (case redis_del e cacheKey w1 of
             (Some err, w2) \<Rightarrow> (failure err, w2)
           | (None, w2) \<Rightarrow> (\<lparr>status = 201, body = Json (row_js row)\<rparr>, w2)))"

text \<open>The requests the server answers, and a run of them.\<close>

datatype request =
    GET_health
  | GET_api_tasks
  | POST_api_tasks "string option" "string option"

fun handle :: "request \<Rightarrow> env \<Rightarrow> world \<Rightarrow> response \<times> world" where
  "handle GET_health e w = get_health e w"
| "handle GET_api_tasks e w = get_api_tasks e w"
| "handle (POST_api_tasks t d) e w = post_api_tasks e t d w"

fun run :: "(request \<times> env) list \<Rightarrow> world \<Rightarrow> world" where
  "run [] w = w"
| "run ((rq, e) # rest) w = run rest (snd (handle rq e w))"

text \<open>
  The process. \<^verbatim>\<open>redisClient\<close> is an event emitter, and \<^verbatim>\<open>server.js\<close> registers no listener
  for its \<^verbatim>\<open>'error'\<close> event (\<^verbatim>\<open>redisClient.connect().catch(console.error)\<close> handles the
  rejection of that one promise only). When the client emits \<^verbatim>\<open>'error'\<close>, because its
  connection is refused or lost, Node throws the error and the process exits. A request
  that arrives after that is not answered (\<open>None\<close>).
\<close>

datatype event =
    Request request env
  | Redis_client_error string

record process =
  running :: bool
  state :: world

definition start :: "world \<Rightarrow> process" where
  "start w = \<lparr>running = True, state = w\<rparr>"

fun serve :: "event \<Rightarrow> process \<Rightarrow> response option \<times> process" where
  "serve (Request rq e) p =
     (if running p
      then (Some (fst (handle rq e (state p))), p\<lparr>state := snd (handle rq e (state p))\<rparr>)
      else (None, p))"
| "serve (Redis_client_error msg) p = (None, p\<lparr>running := False\<rparr>)"

text \<open>Reading a response: the member of an object, and the bytes \<^verbatim>\<open>res.json\<close> sends.\<close>

definition member :: "string \<Rightarrow> payload \<Rightarrow> jsval option" where
  "member k p = (case p of Json (JObj kvs) \<Rightarrow> map_of kvs k | _ \<Rightarrow> None)"

definition sent :: "jsval option \<Rightarrow> string option" where
  "sent v = map_option JSON_stringify v"

section \<open>What the properties are stated with\<close>

text \<open>
  \<open>precedes a b\<close>: under \<^verbatim>\<open>ORDER BY created_at DESC\<close> the row \<open>a\<close> may stand before \<open>b\<close>
  (NULL sorts before every time, a later time before an earlier one).
\<close>

definition precedes :: "task \<Rightarrow> task \<Rightarrow> bool" where
  "precedes a b =
     (case created_at a of
        None \<Rightarrow> True
      | Some x \<Rightarrow> (case created_at b of None \<Rightarrow> False | Some y \<Rightarrow> y \<le> x))"

text \<open>The invariant of the data model: both timestamps are set, \<^verbatim>\<open>updated_at >= created_at\<close>.\<close>

definition timestamps_ordered :: "task \<Rightarrow> bool" where
  "timestamps_ordered r =
     (case created_at r of
        None \<Rightarrow> False
      | Some c \<Rightarrow> (case updated_at r of None \<Rightarrow> False | Some u \<Rightarrow> c \<le> u))"

definition store_ok :: "world \<Rightarrow> bool" where
  "store_ok w \<longleftrightarrow> list_all timestamps_ordered (tasks w) \<and> distinct (map id' (tasks w))"

text \<open>
  What \<^verbatim>\<open>tasks:all\<close> holds when \<^verbatim>\<open>server.js\<close> is its only writer: nothing, or the JSON
  text of a list of rows.
\<close>

definition cache_holds_rows :: "world \<Rightarrow> bool" where
  "cache_holds_rows w \<longleftrightarrow>
     redis w cacheKey = None
     \<or> (\<exists>rows expiry. redis w cacheKey = Some (JSON_stringify (rows_js rows), expiry))"

text \<open>The same, with the rows in the order of \<^verbatim>\<open>ORDER BY created_at DESC\<close>.\<close>

definition cache_sorted :: "world \<Rightarrow> bool" where
  "cache_sorted w \<longleftrightarrow>
     redis w cacheKey = None
     \<or> (\<exists>rows expiry. redis w cacheKey = Some (JSON_stringify (rows_js rows), expiry)
            \<and> sorted_wrt precedes rows)"

text \<open>
  Environments for the examples: every call answered, or with Redis unreachable; in both
  the store delivers rows of equal \<^verbatim>\<open>created_at\<close> in heap order.
\<close>

definition quiet :: "time \<Rightarrow> env" where
  "quiet t = \<lparr>now = t, fails = (\<lambda>c. None), tie_order = (\<lambda>r. 0)\<rparr>"

definition redis_down :: "time \<Rightarrow> env" where
  "redis_down t =
     \<lparr>now = t,
      fails = (\<lambda>c. case c of Pg_query q ps \<Rightarrow> None | _ \<Rightarrow> Some ''The client is closed''),
      tie_order = (\<lambda>r. 0)\<rparr>"

definition empty_db :: world where
  "empty_db = \<lparr>tasks = [], tasks_id_seq = 0, redis = Map.empty, calls = []\<rparr>"

section \<open>Lemmas about JSON text\<close>

subsection \<open>Numbers\<close>

lemma of_char_digit: "d < 10 \<Longrightarrow> (of_char (digit d) :: nat) = 48 + d"
  by (simp add: digit_def)

lemma is_digit_digit: "d < 10 \<Longrightarrow> is_digit (digit d)"
  by (simp add: is_digit_def of_char_digit)

lemma show_nat_digits: "c \<in> set (show_nat n) \<Longrightarrow> is_digit c"
proof (induction n rule: show_nat.induct)
  case (1 n)
  then show ?case
    by (subst (asm) (2) show_nat.simps) (auto simp: is_digit_digit split: if_splits)
qed

lemma show_nat_not_Nil: "show_nat n \<noteq> []"
  by (subst show_nat.simps) simp

lemma digits_value_snoc: "digits_value (ds @ [c]) = 10 * digits_value ds + (of_char c - 48)"
  by (simp add: digits_value_def)

lemma digits_value_show_nat: "digits_value (show_nat n) = n"
proof (induction n rule: show_nat.induct)
  case (1 n)
  show ?case
  proof (cases "n < 10")
    case True
    then show ?thesis
      by (subst show_nat.simps) (simp add: digits_value_def of_char_digit)
  next
    case False
    with 1 show ?thesis
      by (subst show_nat.simps) (simp add: digits_value_snoc of_char_digit)
  qed
qed

lemma digit_zero: "d < 10 \<Longrightarrow> digit d = CHR ''0'' \<Longrightarrow> d = 0"
proof -
  assume a: "d < 10" and b: "digit d = CHR ''0''"
  have "(of_char (digit d) :: nat) = of_char (CHR ''0'')" using b by simp
  with a show ?thesis by (simp add: of_char_digit)
qed

lemma show_nat_leading: "0 < n \<Longrightarrow> hd (show_nat n) \<noteq> CHR ''0''"
proof (induction n rule: show_nat.induct)
  case (1 n)
  show ?case
  proof (cases "n < 10")
    case True
    with 1(2) show ?thesis
      by (subst show_nat.simps) (auto dest: digit_zero)
  next
    case False
    then have "0 < n div 10" by simp
    with 1(1) False have "hd (show_nat (n div 10)) \<noteq> CHR ''0''" by simp
    with False show ?thesis
      by (subst show_nat.simps) (simp add: show_nat_not_Nil)
  qed
qed

lemma show_nat_zero: "show_nat 0 = ''0''"
  by (subst show_nat.simps) (simp add: digit_def char_of_eq_iff)

lemma show_nat_no_leading_zero: "1 < length (show_nat n) \<Longrightarrow> hd (show_nat n) \<noteq> CHR ''0''"
  by (cases "n = 0") (simp_all add: show_nat_zero show_nat_leading)

lemma parse_nat_show_nat:
  assumes "takeWhile is_digit rest = []"
  shows "parse_nat (show_nat n @ rest) = Some (n, rest)"
proof -
  have t: "takeWhile is_digit (show_nat n @ rest) = show_nat n"
    using assms by (simp add: takeWhile_append2 show_nat_digits)
  have "dropWhile is_digit rest = rest"
    using assms by (metis append_Nil takeWhile_dropWhile_id)
  then have d: "dropWhile is_digit (show_nat n @ rest) = rest"
    by (simp add: dropWhile_append2 show_nat_digits)
  show ?thesis
    unfolding parse_nat_def Let_def t d
    using show_nat_no_leading_zero [of n]
    by (auto simp: show_nat_not_Nil digits_value_show_nat)
qed

lemma show_nat_Cons: "\<exists>c cs. show_nat n = c # cs \<and> is_digit c"
  using show_nat_digits [of _ n] show_nat_not_Nil [of n]
  by (cases "show_nat n") auto

lemma parse_number_show_int:
  assumes "takeWhile is_digit rest = []"
  shows "parse_number (show_int i @ rest) = Some (JNum i, rest)"
proof (cases "i < 0")
  case True
  then show ?thesis
    by (simp add: parse_number_def show_int_def parse_nat_show_nat [OF assms])
next
  case False
  obtain c cs where c: "show_nat (nat i) = c # cs" "is_digit c"
    using show_nat_Cons by blast
  then have "c \<noteq> CHR ''-''" by (auto simp: is_digit_def)
  moreover have "parse_nat (c # cs @ rest) = Some (nat i, rest)"
    using parse_nat_show_nat [OF assms, of "nat i"] c by simp
  ultimately show ?thesis
    using False c by (simp add: parse_number_def show_int_def)
qed

subsection \<open>Strings\<close>

lemma hex_value_hex_digit: "d < 16 \<Longrightarrow> hex_value (hex_digit d) = Some d"
  by (auto simp: hex_value_def hex_digit_def Let_def)

lemma parse_chars_plain:
  assumes "c \<noteq> CHR 0x22" "c \<noteq> CHR 0x5C" "\<not> (of_char c :: nat) < 32"
  shows "parse_chars (c # cs) = cons_char c (parse_chars cs)"
  using assms by (subst parse_chars.simps) simp

lemma parse_chars_short:
  assumes "unescape e = Some d" "e \<noteq> CHR ''u''"
  shows "parse_chars (CHR 0x5C # e # cs) = cons_char d (parse_chars cs)"
  using assms by (subst parse_chars.simps) simp

lemma parse_chars_u:
  assumes "(of_char c :: nat) < 32"
  shows "parse_chars (CHR 0x5C # CHR ''u'' # CHR ''0'' # CHR ''0'' #
            hex_digit (of_char c div 16) # hex_digit (of_char c mod 16) # cs)
         = cons_char c (parse_chars cs)"
proof -
  let ?n = "of_char c :: nat"
  have h: "hex_value (hex_digit (?n div 16)) = Some (?n div 16)"
          "hex_value (hex_digit (?n mod 16)) = Some (?n mod 16)"
    using assms by (simp_all add: hex_value_hex_digit)
  have z: "hex_value CHR ''0'' = Some 0" by (simp add: hex_value_def)
  have "?n div 16 * 16 + ?n mod 16 = ?n" by simp
  then show ?thesis
    using assms by (subst parse_chars.simps) (simp add: h z)
qed

lemma parse_chars_escape:
  "parse_chars (escape_char c @ cs) = cons_char c (parse_chars cs)"
proof -
  consider "c = CHR 0x22" | "c = CHR 0x5C" | "c = CHR 0x08" | "c = CHR 0x0C" | "c = CHR 0x0A"
    | "c = CHR 0x0D" | "c = CHR 0x09"
    | "c \<notin> {CHR 0x22, CHR 0x5C, CHR 0x08, CHR 0x0C, CHR 0x0A, CHR 0x0D, CHR 0x09}" "(of_char c :: nat) < 32"
    | "c \<notin> {CHR 0x22, CHR 0x5C, CHR 0x08, CHR 0x0C, CHR 0x0A, CHR 0x0D, CHR 0x09}" "\<not> (of_char c :: nat) < 32"
    by blast
  then show ?thesis
  proof cases
    case 8
    then show ?thesis
      using parse_chars_u [of c cs] by (simp add: escape_char_def)
  next
    case 9
    then show ?thesis
      using parse_chars_plain [of c cs] by (simp add: escape_char_def)
  qed (simp_all add: escape_char_def parse_chars_short unescape_def)
qed

lemma parse_chars_quote: "parse_chars (CHR 0x22 # rest) = Some ([], rest)"
  by (subst parse_chars.simps) simp

lemma parse_chars_escaped:
  "parse_chars (concat (map escape_char s) @ CHR 0x22 # rest) = Some (s, rest)"
  by (induction s) (simp_all add: parse_chars_quote parse_chars_escape cons_char_def)

lemma quote_Cons: "quote s @ rest = CHR 0x22 # concat (map escape_char s) @ CHR 0x22 # rest"
  by (simp add: quote_def)

subsection \<open>Values: \<^verbatim>\<open>JSON.parse\<close> after \<^verbatim>\<open>JSON.stringify\<close>\<close>

lemma show_int_Cons: "\<exists>c cs. show_int i = c # cs \<and> (c = CHR ''-'' \<or> is_digit c)"
  using show_nat_Cons [of "nat i"] by (auto simp: show_int_def)

lemma number_start:
  assumes "c = CHR ''-'' \<or> is_digit c"
  shows "c \<noteq> CHR 0x22" "c \<noteq> CHR ''[''" "c \<noteq> CHR ''{''" "c \<noteq> CHR ''n''" "c \<noteq> CHR ''t''"
    "c \<noteq> CHR ''f''" "c \<noteq> CHR '']''" "c \<noteq> CHR ''}''"
  using assms by (auto simp: is_digit_def)

lemma parse_value_number:
  assumes "takeWhile is_digit rest = []"
  shows "parse_value (Suc m) (show_int i @ rest) = Some (JNum i, rest)"
proof -
  obtain c cs where c: "show_int i = c # cs" "c = CHR ''-'' \<or> is_digit c"
    using show_int_Cons by blast
  have "parse_value (Suc m) (c # cs @ rest) = parse_number (c # cs @ rest)"
    using number_start [OF c(2)] by simp
  then show ?thesis
    using parse_number_show_int [OF assms, of i] c(1) by simp
qed

lemma parse_value_string:
  "parse_value (Suc m) (quote s @ rest) = Some (JStr s, rest)"
  by (simp add: quote_Cons parse_chars_escaped)

lemma stringify_starts:
  "\<exists>c cs. JSON_stringify v = c # cs \<and> c \<noteq> CHR '']'' \<and> c \<noteq> CHR ''}''"
proof (cases v)
  case (JNum i)
  then show ?thesis
    using show_int_Cons [of i] number_start(7,8) by auto
qed (auto simp: quote_def)

lemma stringify_not_Nil: "JSON_stringify v \<noteq> []"
  using stringify_starts [of v] by auto

lemma elements_Cons:
  "stringify_elements (v # vs) = JSON_stringify v @ (if vs = [] then [] else '','' @ stringify_elements vs)"
  by (cases vs) simp_all

lemma members_Cons:
  "stringify_members ((k, v) # kvs)
     = quote k @ '':'' @ JSON_stringify v @ (if kvs = [] then [] else '','' @ stringify_members kvs)"
  by (cases kvs) simp_all

lemma elements_starts:
  "vs \<noteq> [] \<Longrightarrow> \<exists>c cs. stringify_elements vs = c # cs \<and> c \<noteq> CHR '']''"
proof (cases vs)
  case (Cons v us)
  then show ?thesis using stringify_starts [of v] by (auto simp: elements_Cons)
qed simp

lemma members_starts:
  "kvs \<noteq> [] \<Longrightarrow> \<exists>cs. stringify_members kvs = CHR 0x22 # cs"
proof (cases kvs)
  case (Cons kv us)
  then show ?thesis by (cases kv) (auto simp: members_Cons quote_def)
qed simp

lemma parse_roundtrip:
  "length (JSON_stringify v) \<le> n \<Longrightarrow> takeWhile is_digit rest = [] \<Longrightarrow>
     parse_value n (JSON_stringify v @ rest) = Some (toJSON v, rest)"
  "vs \<noteq> [] \<Longrightarrow> length (stringify_elements vs) < n \<Longrightarrow>
     parse_elements n (stringify_elements vs @ CHR '']'' # rest) = Some (map toJSON vs, rest)"
  "kvs \<noteq> [] \<Longrightarrow> length (stringify_members kvs) < n \<Longrightarrow>
     parse_members n (stringify_members kvs @ CHR ''}'' # rest)
       = Some (map (\<lambda>(k, v). (k, toJSON v)) kvs, rest)"
proof (induction v and vs and kvs arbitrary: n rest and n rest and n rest
       rule: JSON_stringify_stringify_elements_stringify_members.induct)
  case 1
  then show ?case by (cases n) (simp_all add: literal_def)
next
  case (2 b)
  then show ?case by (cases n; cases b) (simp_all add: literal_def)
next
  case (3 i)
  then obtain m where "n = Suc m"
    using stringify_not_Nil [of "JNum i"] by (cases n) auto
  with 3 show ?case by (simp add: parse_value_number del: parse_value.simps)
next
  case (4 s)
  then obtain m where "n = Suc m"
    using stringify_not_Nil [of "JStr s"] by (cases n) auto
  then show ?case by (simp add: parse_value_string del: parse_value.simps)
next
  case (5 ms)
  then obtain m where n: "n = Suc m"
    using stringify_not_Nil [of "JDate ms"] by (cases n) auto
  show ?case
  proof (cases "ms \<le> max_time_value")
    case True
    then show ?thesis using n by (simp add: parse_value_string del: parse_value.simps)
  next
    case False
    then show ?thesis using n by (simp add: literal_def)
  qed
next
  case (6 vs)
  then obtain m where n: "n = Suc m" by (cases n) auto
  show ?case
  proof (cases "vs = []")
    case True
    then show ?thesis using n by simp
  next
    case False
    then obtain c cs where c: "stringify_elements vs = c # cs" "c \<noteq> CHR '']''"
      using elements_starts by blast
    have "length (stringify_elements vs) < m" using 6(2) n by simp
    from 6(1) [OF False this, of rest]
    have "parse_elements m (c # cs @ CHR '']'' # rest) = Some (map toJSON vs, rest)"
      using c(1) by simp
    then show ?thesis using n c by simp
  qed
next
  case (7 kvs)
  then obtain m where n: "n = Suc m" by (cases n) auto
  show ?case
  proof (cases "kvs = []")
    case True
    then show ?thesis using n by simp
  next
    case False
    then obtain cs where c: "stringify_members kvs = CHR 0x22 # cs"
      using members_starts by blast
    have "length (stringify_members kvs) < m" using 7(2) n by simp
    from 7(1) [OF False this, of rest]
    have "parse_members m (CHR 0x22 # cs @ CHR ''}'' # rest)
            = Some (map (\<lambda>(k, v). (k, toJSON v)) kvs, rest)"
      using c by simp
    then show ?thesis using n c by simp
  qed
next
  case 8
  then show ?case by simp
next
  case (9 v)
  then obtain m where n: "n = Suc m" by (cases n) auto
  have "parse_value m (JSON_stringify v @ CHR '']'' # rest) = Some (toJSON v, CHR '']'' # rest)"
    by (rule "9.IH") (use "9.prems" n in \<open>simp_all add: is_digit_def\<close>)
  then show ?case using n by simp
next
  case (10 v u vs)
  then obtain m where n: "n = Suc m" by (cases n) auto
  let ?tail = "stringify_elements (u # vs) @ CHR '']'' # rest"
  have "parse_value m (JSON_stringify v @ CHR '','' # ?tail) = Some (toJSON v, CHR '','' # ?tail)"
    by (rule "10.IH"(1)) (use "10.prems" n in \<open>simp_all add: is_digit_def\<close>)
  moreover have "parse_elements m ?tail = Some (map toJSON (u # vs), rest)"
    by (rule "10.IH"(2)) (use "10.prems" n in \<open>simp_all\<close>)
  ultimately show ?case using n by simp
next
  case 11
  then show ?case by simp
next
  case (12 k v)
  then obtain m where n: "n = Suc m" by (cases n) auto
  have "parse_value m (JSON_stringify v @ CHR ''}'' # rest) = Some (toJSON v, CHR ''}'' # rest)"
    by (rule "12.IH") (use "12.prems" n in \<open>simp_all add: is_digit_def\<close>)
  then show ?case using n by (simp add: quote_Cons parse_chars_escaped)
next
  case (13 k v kv kvs)
  then obtain m where n: "n = Suc m" by (cases n) auto
  let ?tail = "stringify_members (kv # kvs) @ CHR ''}'' # rest"
  have "parse_value m (JSON_stringify v @ CHR '','' # ?tail) = Some (toJSON v, CHR '','' # ?tail)"
    by (rule "13.IH"(1)) (use "13.prems" n in \<open>simp_all add: is_digit_def\<close>)
  moreover have "parse_members m ?tail = Some (map (\<lambda>(k, v). (k, toJSON v)) (kv # kvs), rest)"
    by (rule "13.IH"(2)) (use "13.prems" n in \<open>simp_all\<close>)
  ultimately show ?case using n by (simp add: quote_Cons parse_chars_escaped)
qed

lemma JSON_parse_stringify: "JSON_parse (JSON_stringify v) = Some (toJSON v)"
  using parse_roundtrip(1) [of v "length (JSON_stringify v)" "[]"]
  by (simp add: JSON_parse_def)

lemma stringify_toJSON:
  "JSON_stringify (toJSON v) = JSON_stringify v"
  "stringify_elements (map toJSON vs) = stringify_elements vs"
  "stringify_members (map (\<lambda>(k, v). (k, toJSON v)) kvs) = stringify_members kvs"
  by (induction v and vs and kvs rule: JSON_stringify_stringify_elements_stringify_members.induct)
     simp_all

section \<open>Lemmas about the store and the handlers\<close>

lemma desc_key_le: "desc_key a \<le> desc_key b \<longleftrightarrow> precedes a b"
  by (cases "created_at a"; cases "created_at b") (simp_all add: desc_key_def precedes_def)

lemma order_mset: "mset (order_by_created_at_desc tie rows) = mset rows"
  by (simp add: order_by_created_at_desc_def)

lemma order_sorted: "sorted_wrt precedes (order_by_created_at_desc tie rows)"
proof -
  have "sorted (map desc_key (order_by_created_at_desc tie rows))"
    by (simp add: order_by_created_at_desc_def)
  then show ?thesis
    by (simp add: sorted_map desc_key_le)
qed

lemma desc_key_eq: "desc_key r = map_option (\<lambda>t. - int t) c \<longleftrightarrow> created_at r = c"
  by (cases "created_at r"; cases c) (simp_all add: desc_key_def)

lemma order_ties:
  "[r \<leftarrow> order_by_created_at_desc tie rows. created_at r = c]
     = sort_key tie [r \<leftarrow> rows. created_at r = c]"
proof -
  let ?k = "map_option (\<lambda>t. - int t) c"
  have "[r \<leftarrow> order_by_created_at_desc tie rows. created_at r = c]
          = [r \<leftarrow> sort_key desc_key (sort_key tie rows). desc_key r = ?k]"
    by (simp add: order_by_created_at_desc_def desc_key_eq)
  also have "\<dots> = [r \<leftarrow> sort_key tie rows. desc_key r = ?k]"
    by (rule sort_key_stable)
  also have "\<dots> = [r \<leftarrow> sort_key tie rows. created_at r = c]"
    by (simp add: desc_key_eq)
  also have "\<dots> = sort_key tie [r \<leftarrow> rows. created_at r = c]"
    by (rule filter_sort)
  finally show ?thesis .
qed

lemma from_database_ok:
  assumes "\<forall>c. fails e c = None"
  shows "from_database e w =
     (\<lparr>status = 200,
       body = Json (JObj [(''source'', JStr ''database''),
                          (''data'', rows_js (order_by_created_at_desc (tie_order e) (tasks w)))])\<rparr>,
      w\<lparr>redis := (redis w)(cacheKey \<mapsto>
             (JSON_stringify (rows_js (order_by_created_at_desc (tie_order e) (tasks w))),
              Some (millis (now e) + 60000))),
        calls := calls w @ [Pg_query select_sql [],
             Redis_setEx cacheKey 60
               (JSON_stringify (rows_js (order_by_created_at_desc (tie_order e) (tasks w))))]\<rparr>)"
  using assms
  by (simp add: from_database_def pg_query_select_def redis_setEx_def issue_def)

lemma miss_ok:
  assumes "\<forall>c. fails e c = None" and "lookup e w cacheKey = None"
  shows "get_api_tasks e w =
     (\<lparr>status = 200,
       body = Json (JObj [(''source'', JStr ''database''),
                          (''data'', rows_js (order_by_created_at_desc (tie_order e) (tasks w)))])\<rparr>,
      w\<lparr>redis := (redis w)(cacheKey \<mapsto>
             (JSON_stringify (rows_js (order_by_created_at_desc (tie_order e) (tasks w))),
              Some (millis (now e) + 60000))),
        calls := calls w @ [Redis_get cacheKey, Pg_query select_sql [],
             Redis_setEx cacheKey 60
               (JSON_stringify (rows_js (order_by_created_at_desc (tie_order e) (tasks w))))]\<rparr>)"
  using assms
  by (simp add: get_api_tasks_def redis_get_def from_database_ok issue_def lookup_def)

lemma JSON_parse_Nil: "JSON_parse [] = None"
  by (simp add: JSON_parse_def)

lemma hit_ok:
  assumes "fails e (Redis_get cacheKey) = None" and "lookup e w cacheKey = Some s"
    and "JSON_parse s = Some v"
  shows "get_api_tasks e w =
     (\<lparr>status = 200, body = Json (JObj [(''source'', JStr ''cache''), (''data'', v)])\<rparr>,
      w\<lparr>calls := calls w @ [Redis_get cacheKey]\<rparr>)"
proof -
  have "s \<noteq> []" using assms(3) JSON_parse_Nil by auto
  then show ?thesis
    using assms by (simp add: get_api_tasks_def redis_get_def issue_def)
qed

lemma insert_outcome:
  "(\<exists>err. fst (pg_query_insert e t d w) = Inl err \<and> tasks (snd (pg_query_insert e t d w)) = tasks w)
   \<or> (\<exists>row. fst (pg_query_insert e t d w) = Inr row
          \<and> tasks (snd (pg_query_insert e t d w)) = tasks w @ [row]
          \<and> id' row = tasks_id_seq w + 1 \<and> id' row \<notin> set (map id' (tasks w))
          \<and> created_at row = Some (now e) \<and> updated_at row = Some (now e))"
  by (auto simp: pg_query_insert_def issue_def Let_def split: option.splits)

lemma insert_Inr:
  assumes "fst (pg_query_insert e t d w) = Inr row"
  shows "snd (pg_query_insert e t d w) =
           w\<lparr>tasks := tasks w @ [row], tasks_id_seq := tasks_id_seq w + 1,
             calls := calls w @ [Pg_query insert_sql [t, d]]\<rparr>"
    and "id' row = tasks_id_seq w + 1" and "id' row \<notin> set (map id' (tasks w))"
    and "created_at row = Some (now e)" and "updated_at row = Some (now e)"
  using assms
  by (auto simp: pg_query_insert_def issue_def Let_def split: option.splits if_splits)

lemma post_tasks:
  "tasks (snd (post_api_tasks e t d w)) = tasks (snd (pg_query_insert e t d w))"
  by (auto simp: post_api_tasks_def redis_del_def issue_def split: prod.splits sum.splits option.splits)

lemma get_tasks: "tasks (snd (get_api_tasks e w)) = tasks w"
  by (auto simp: get_api_tasks_def from_database_def redis_get_def redis_setEx_def
        pg_query_select_def issue_def split: prod.splits sum.splits option.splits)

lemma handle_tasks:
  "tasks (snd (handle rq e w)) = tasks w
   \<or> (\<exists>row. tasks (snd (handle rq e w)) = tasks w @ [row]
          \<and> id' row \<notin> set (map id' (tasks w)) \<and> timestamps_ordered row)"
proof (cases rq)
  case GET_health
  then show ?thesis by (simp add: get_health_def)
next
  case GET_api_tasks
  then show ?thesis by (simp add: get_tasks)
next
  case (POST_api_tasks t d)
  then show ?thesis
    using insert_outcome [of e t d w]
    by (auto simp: post_tasks timestamps_ordered_def)
qed

lemma handle_store_ok:
  assumes "store_ok w"
  shows "store_ok (snd (handle rq e w))"
  using handle_tasks [of rq e w] assms by (auto simp: store_ok_def)

lemma handle_prefix: "take (length (tasks w)) (tasks (snd (handle rq e w))) = tasks w"
  using handle_tasks [of rq e w] by auto

lemma run_prefix: "take (length (tasks w)) (tasks (run rs w)) = tasks w"
proof (induction rs arbitrary: w)
  case Nil
  then show ?case by simp
next
  case (Cons a rs)
  obtain rq e where a: "a = (rq, e)" by (cases a)
  let ?w = "snd (handle rq e w)"
  have p: "take (length (tasks w)) (tasks ?w) = tasks w" by (rule handle_prefix)
  then have "length (tasks w) \<le> length (tasks ?w)"
    by (metis length_take min.cobounded2 min.commute)
  then have "take (length (tasks w)) (tasks (run rs ?w))
               = take (length (tasks w)) (take (length (tasks ?w)) (tasks (run rs ?w)))"
    by (simp add: min_def)
  also have "\<dots> = tasks w" using Cons.IH [of ?w] p by simp
  finally show ?case using a by simp
qed

lemma run_store_ok: "store_ok w \<Longrightarrow> store_ok (run rs w)"
proof (induction rs arbitrary: w)
  case Nil
  then show ?case by simp
next
  case (Cons a rs)
  then show ?case by (cases a) (simp add: handle_store_ok)
qed

lemma create_ok:
  assumes "fst (pg_query_insert e t d w) = Inr row" and "fails e (Redis_del cacheKey) = None"
  shows "post_api_tasks e t d w =
           (\<lparr>status = 201, body = Json (row_js row)\<rparr>,
            w\<lparr>tasks := tasks w @ [row], tasks_id_seq := tasks_id_seq w + 1,
              redis := (redis w)(cacheKey := None),
              calls := calls w @ [Pg_query insert_sql [t, d], Redis_del cacheKey]\<rparr>)"
proof -
  obtain r w1 where p: "pg_query_insert e t d w = (r, w1)" by (cases "pg_query_insert e t d w")
  with assms(1) insert_Inr(1) [OF assms(1)] have "r = Inr row"
    and "w1 = w\<lparr>tasks := tasks w @ [row], tasks_id_seq := tasks_id_seq w + 1,
             calls := calls w @ [Pg_query insert_sql [t, d]]\<rparr>" by simp_all
  then show ?thesis
    using p assms(2) by (simp add: post_api_tasks_def redis_del_def issue_def)
qed

lemma member_failure [simp]: "member k (body (failure err)) = None"
  by (simp add: member_def failure_def)

lemma populated:
  assumes "member ''source'' (body (fst (get_api_tasks e w))) = Some (JStr ''database'')"
  shows "\<exists>rows. get_api_tasks e w =
      (\<lparr>status = 200,
        body = Json (JObj [(''source'', JStr ''database''), (''data'', rows_js rows)])\<rparr>,
       w\<lparr>redis := (redis w)(cacheKey \<mapsto> (JSON_stringify (rows_js rows), Some (millis (now e) + 60000))),
         calls := calls w @ [Redis_get cacheKey, Pg_query select_sql [],
                    Redis_setEx cacheKey 60 (JSON_stringify (rows_js rows))]\<rparr>)"
  using assms
  by (auto simp: get_api_tasks_def from_database_def redis_get_def redis_setEx_def
        pg_query_select_def issue_def member_def failure_def
        split: option.splits if_splits)

lemma create_calls:
  assumes "fst (pg_query_insert e t d w) = Inr row"
  shows "calls (snd (post_api_tasks e t d w)) =
           calls w @ [Pg_query insert_sql [t, d], Redis_del cacheKey]"
  using assms
  by (auto simp: post_api_tasks_def pg_query_insert_def redis_del_def failure_def issue_def Let_def
           split: option.splits if_splits prod.splits sum.splits)

lemma trigger_keeps_order:
  assumes "created_at r = Some c" and "c \<le> t"
  shows "timestamps_ordered (update_updated_at_column t r)"
    and "id' (update_updated_at_column t r) = id' r"
    and "created_at (update_updated_at_column t r) = created_at r"
  using assms by (simp_all add: update_updated_at_column_def timestamps_ordered_def)

lemma post_redis:
  "redis (snd (post_api_tasks e t d w)) = redis w
   \<or> redis (snd (post_api_tasks e t d w)) = (redis w)(cacheKey := None)"
  by (auto simp: post_api_tasks_def pg_query_insert_def redis_del_def failure_def issue_def Let_def
           split: option.splits if_splits prod.splits sum.splits)

lemma get_redis:
  "redis (snd (get_api_tasks e w)) = redis w
   \<or> (\<exists>rows expiry. redis (snd (get_api_tasks e w))
          = (redis w)(cacheKey \<mapsto> (JSON_stringify (rows_js rows), expiry)))"
  by (auto simp: get_api_tasks_def from_database_def redis_get_def redis_setEx_def
        pg_query_select_def issue_def split: prod.splits sum.splits option.splits)

lemma handle_cache_holds_rows:
  assumes "cache_holds_rows w"
  shows "cache_holds_rows (snd (handle rq e w))"
proof (cases rq)
  case GET_health
  with assms show ?thesis by (simp add: get_health_def)
next
  case GET_api_tasks
  with assms get_redis [of e w] show ?thesis
    by (auto simp: cache_holds_rows_def)
next
  case (POST_api_tasks t d)
  with assms post_redis [of e t d w] show ?thesis
    by (auto simp: cache_holds_rows_def)
qed

lemma run_cache_holds_rows: "cache_holds_rows w \<Longrightarrow> cache_holds_rows (run rs w)"
proof (induction rs arbitrary: w)
  case Nil
  then show ?case by simp
next
  case (Cons a rs)
  then show ?case by (cases a) (simp add: handle_cache_holds_rows)
qed

lemma init_cache_holds_rows: "cache_holds_rows (init_script t)"
  by (simp add: cache_holds_rows_def init_script_def)

lemma handle_step:
  "(tasks (snd (handle rq e w)) = tasks w \<and> tasks_id_seq w \<le> tasks_id_seq (snd (handle rq e w)))
   \<or> (\<exists>row. tasks (snd (handle rq e w)) = tasks w @ [row]
          \<and> id' row = tasks_id_seq w + 1
          \<and> tasks_id_seq (snd (handle rq e w)) = tasks_id_seq w + 1)"
proof (cases rq)
  case GET_health
  then show ?thesis by (simp add: get_health_def)
next
  case GET_api_tasks
  then show ?thesis
    by (auto simp: get_api_tasks_def from_database_def redis_get_def redis_setEx_def
        pg_query_select_def issue_def split: prod.splits sum.splits option.splits)
next
  case (POST_api_tasks t d)
  then show ?thesis
    by (auto simp: post_api_tasks_def pg_query_insert_def redis_del_def issue_def Let_def
        split: prod.splits sum.splits option.splits if_splits)
qed

lemma handle_seq_mono: "tasks_id_seq w \<le> tasks_id_seq (snd (handle rq e w))"
  using handle_step [of rq e w] by auto

lemma run_seq_mono: "tasks_id_seq w \<le> tasks_id_seq (run rs w)"
proof (induction rs arbitrary: w)
  case Nil
  then show ?case by simp
next
  case (Cons a rs)
  obtain rq e where a: "a = (rq, e)" by (cases a)
  have "tasks_id_seq w \<le> tasks_id_seq (snd (handle rq e w))" by (rule handle_seq_mono)
  also have "\<dots> \<le> tasks_id_seq (run rs (snd (handle rq e w)))" by (rule Cons.IH)
  finally show ?case using a by simp
qed

lemma run_tasks_append:
  "tasks (run rs w) = tasks w @ drop (length (tasks w)) (tasks (run rs w))"
  using run_prefix [of w rs] by (metis append_take_drop_id)

lemma run_new_ids:
  "r \<in> set (drop (length (tasks w)) (tasks (run rs w)))
     \<Longrightarrow> tasks_id_seq w < id' r \<and> id' r \<le> tasks_id_seq (run rs w)"
proof (induction rs arbitrary: w)
  case Nil
  then show ?case by simp
next
  case (Cons a rs)
  obtain rq e where a: "a = (rq, e)" by (cases a)
  let ?w1 = "snd (handle rq e w)"
  let ?added = "drop (length (tasks ?w1)) (tasks (run rs ?w1))"
  have run: "tasks (run rs ?w1) = tasks ?w1 @ ?added" by (rule run_tasks_append)
  have mono: "tasks_id_seq ?w1 \<le> tasks_id_seq (run rs ?w1)" by (rule run_seq_mono)
  from handle_step [of rq e w] show ?case
  proof
    assume same: "tasks ?w1 = tasks w \<and> tasks_id_seq w \<le> tasks_id_seq ?w1"
    with Cons.prems a have "r \<in> set ?added" by simp
    from Cons.IH [OF this] same show ?thesis using a by simp
  next
    assume "\<exists>row. tasks ?w1 = tasks w @ [row] \<and> id' row = tasks_id_seq w + 1
                \<and> tasks_id_seq ?w1 = tasks_id_seq w + 1"
    then obtain row where row: "tasks ?w1 = tasks w @ [row]" "id' row = tasks_id_seq w + 1"
      "tasks_id_seq ?w1 = tasks_id_seq w + 1" by blast
    have "drop (length (tasks w)) (tasks (run rs ?w1)) = row # ?added"
      by (subst run) (simp add: row(1))
    with Cons.prems a have "r = row \<or> r \<in> set ?added" by simp
    then show ?thesis
    proof
      assume "r = row"
      with row mono show ?thesis using a by simp
    next
      assume "r \<in> set ?added"
      from Cons.IH [OF this] row(3) show ?thesis using a by simp
    qed
  qed
qed

lemma get_redis_sorted:
  "redis (snd (get_api_tasks e w)) = redis w
   \<or> (\<exists>rows expiry. sorted_wrt precedes rows
         \<and> redis (snd (get_api_tasks e w))
              = (redis w)(cacheKey \<mapsto> (JSON_stringify (rows_js rows), expiry)))"
proof -
  have "redis (snd (get_api_tasks e w)) = redis w
     \<or> redis (snd (get_api_tasks e w))
          = (redis w)(cacheKey \<mapsto>
               (JSON_stringify (rows_js (order_by_created_at_desc (tie_order e) (tasks w))),
                Some (millis (now e) + 60000)))"
    by (auto simp: get_api_tasks_def from_database_def redis_get_def redis_setEx_def
        pg_query_select_def issue_def split: prod.splits sum.splits option.splits)
  then show ?thesis using order_sorted by blast
qed

lemma handle_cache_sorted:
  assumes "cache_sorted w"
  shows "cache_sorted (snd (handle rq e w))"
proof (cases rq)
  case GET_health
  with assms show ?thesis by (simp add: get_health_def)
next
  case GET_api_tasks
  with assms get_redis_sorted [of e w] show ?thesis
    by (auto simp: cache_sorted_def)
next
  case (POST_api_tasks t d)
  with assms post_redis [of e t d w] show ?thesis
    by (auto simp: cache_sorted_def)
qed

lemma run_cache_sorted: "cache_sorted w \<Longrightarrow> cache_sorted (run rs w)"
proof (induction rs arbitrary: w)
  case Nil
  then show ?case by simp
next
  case (Cons a rs)
  then show ?case by (cases a) (simp add: handle_cache_sorted)
qed

lemma from_database_200:
  assumes "status (fst (from_database e w)) = 200"
  shows "member ''data'' (body (fst (from_database e w)))
           = Some (rows_js (order_by_created_at_desc (tie_order e) (tasks w)))"
  using assms
  by (auto simp: from_database_def redis_setEx_def pg_query_select_def issue_def member_def
        failure_def split: option.splits)

lemma list_200_sorted:
  assumes "cache_sorted w" and "status (fst (get_api_tasks e w)) = 200"
  shows "\<exists>rows. sorted_wrt precedes rows
           \<and> (member ''data'' (body (fst (get_api_tasks e w))) = Some (rows_js rows)
              \<or> member ''data'' (body (fst (get_api_tasks e w))) = Some (toJSON (rows_js rows)))"
proof (cases "fails e (Redis_get cacheKey)")
  case (Some msg)
  with assms(2) show ?thesis
    by (simp add: get_api_tasks_def redis_get_def failure_def)
next
  case None
  let ?fresh = "order_by_created_at_desc (tie_order e) (tasks w)"
  let ?w1 = "issue (Redis_get cacheKey) w"
  have tw: "tasks ?w1 = tasks w" by (simp add: issue_def)
  show ?thesis
  proof (cases "lookup e w cacheKey")
    case miss: None
    then have g: "get_api_tasks e w = from_database e ?w1"
      using None by (simp add: get_api_tasks_def redis_get_def)
    with assms(2) have "member ''data'' (body (fst (get_api_tasks e w))) = Some (rows_js ?fresh)"
      using from_database_200 [of e ?w1] tw by simp
    with order_sorted show ?thesis by blast
  next
    case (Some s)
    then obtain x where x: "redis w cacheKey = Some (s, x)"
      by (auto simp: lookup_def split: option.splits if_splits)
    with assms(1) obtain rows where rows: "s = JSON_stringify (rows_js rows)"
      "sorted_wrt precedes rows"
      by (auto simp: cache_sorted_def)
    have "get_api_tasks e w =
        (\<lparr>status = 200,
          body = Json (JObj [(''source'', JStr ''cache''), (''data'', toJSON (rows_js rows))])\<rparr>,
         w\<lparr>calls := calls w @ [Redis_get cacheKey]\<rparr>)"
      using hit_ok [OF None Some] rows(1) JSON_parse_stringify by simp
    then have "member ''data'' (body (fst (get_api_tasks e w))) = Some (toJSON (rows_js rows))"
      by (simp add: member_def)
    with rows(2) show ?thesis by blast
  qed
qed

lemma health_while_running:
  assumes "running p"
  shows "serve (Request GET_health e) p =
           (Some \<lparr>status = 200,
                  body = Json (JObj [(''status'', JStr ''healthy''),
                                     (''timestamp'', JDate (millis (now e)))])\<rparr>, p)"
  using assms by (simp add: get_health_def)

lemma lookup_None_iff:
  "lookup e w k = None \<longleftrightarrow>
     redis w k = None \<or> (\<exists>s t. redis w k = Some (s, Some t) \<and> t < millis (now e))"
  by (auto simp: lookup_def expired_def split: option.splits)

lemmas model_defs = post_api_tasks_def pg_query_insert_def redis_del_def get_api_tasks_def
  from_database_def redis_get_def redis_setEx_def pg_query_select_def lookup_def expired_def
  issue_def failure_def millis_def has_nul_def too_long_def serial_max_def Let_def cacheKey_def

lemmas example_defs = quiet_def redis_down_def empty_db_def init_script_def sample_def

lemma warm_cache:
  "snd (get_api_tasks (quiet 0) empty_db) =
     \<lparr>tasks = [], tasks_id_seq = 0, redis = [''tasks:all'' \<mapsto> (''[]'', Some 60000)],
      calls = [Redis_get ''tasks:all'', Pg_query select_sql [],
               Redis_setEx ''tasks:all'' 60 ''[]'']\<rparr>"
  by (simp add: model_defs example_defs order_by_created_at_desc_def rows_js_def)

lemma JSON_parse_empty_array: "JSON_parse ''[]'' = Some (JArr [])"
  by (simp add: JSON_parse_def)

section \<open>The claims\<close>

subsection \<open>C1\<close>

text \<open>
  C1, as stated, fails: the entry is deleted only if \<^verbatim>\<open>redisClient.del\<close> is not rejected.
  On a cache that holds the empty list, a create whose \<^verbatim>\<open>INSERT\<close> succeeds while Redis
  turns the deletion down leaves the entry in place, and the next list call is answered
  from the cache, with the empty list and without the new task.
\<close>

theorem stale_list_survives_rejected_deletion:
  "fst (pg_query_insert (redis_down 5000) (Some ''A'') (Some ''d1'')
          (snd (get_api_tasks (quiet 0) empty_db))) =
     Inr \<lparr>id' = 1, title = ''A'', description = Some ''d1'', completed = Some False,
          created_at = Some 5000, updated_at = Some 5000\<rparr>
   \<and> redis (snd (post_api_tasks (redis_down 5000) (Some ''A'') (Some ''d1'')
               (snd (get_api_tasks (quiet 0) empty_db)))) ''tasks:all'' = Some (''[]'', Some 60000)
   \<and> fst (get_api_tasks (quiet 6000) (snd (post_api_tasks (redis_down 5000) (Some ''A'') (Some ''d1'')
               (snd (get_api_tasks (quiet 0) empty_db))))) =
       \<lparr>status = 200, body = Json (JObj [(''source'', JStr ''cache''), (''data'', JArr [])])\<rparr>"
  by (simp add: warm_cache) (simp add: model_defs example_defs JSON_parse_empty_array)

text \<open>
  C1, amended: with requests handled one after the other, a create whose \<^verbatim>\<open>INSERT\<close>
  succeeds always goes on to issue the deletion of \<^verbatim>\<open>tasks:all\<close>. When that deletion is
  not rejected, the create answers 201 with the new task and no entry is left under
  \<^verbatim>\<open>tasks:all\<close>; the next list call, with its collaborators answering, therefore takes the
  miss path: it issues the \<^verbatim>\<open>GET\<close>, the \<^verbatim>\<open>SELECT\<close> and the \<^verbatim>\<open>SETEX\<close>, is tagged
  \<^verbatim>\<open>database\<close>, and its \<^verbatim>\<open>data\<close> are the objects of the old rows and of the new row in some
  order, so they contain the task that the create returned. When the deletion is rejected,
  the Redis keys are left as they were.
\<close>

theorem create_then_list_contains_task:
  assumes "fst (pg_query_insert e t d w) = Inr row"
  shows "calls (snd (post_api_tasks e t d w)) =
           calls w @ [Pg_query insert_sql [t, d], Redis_del cacheKey]
     \<and> (fails e (Redis_del cacheKey) = None \<longrightarrow>
          fst (post_api_tasks e t d w) = \<lparr>status = 201, body = Json (row_js row)\<rparr>
          \<and> redis (snd (post_api_tasks e t d w)) cacheKey = None
          \<and> ((\<forall>c. fails e' c = None) \<longrightarrow>
               (\<exists>elems. row_js row \<in> set elems
                  \<and> mset elems = mset (map row_js (tasks w @ [row]))
                  \<and> fst (get_api_tasks e' (snd (post_api_tasks e t d w))) =
                       \<lparr>status = 200,
                        body = Json (JObj [(''source'', JStr ''database''),
                                           (''data'', JArr elems)])\<rparr>
                  \<and> calls (snd (get_api_tasks e' (snd (post_api_tasks e t d w)))) =
                       calls w @ [Pg_query insert_sql [t, d], Redis_del cacheKey,
                         Redis_get cacheKey, Pg_query select_sql [],
                         Redis_setEx cacheKey 60 (JSON_stringify (JArr elems))])))
     \<and> (fails e (Redis_del cacheKey) \<noteq> None \<longrightarrow>
          redis (snd (post_api_tasks e t d w)) = redis w)"
proof (intro conjI impI)
  show "calls (snd (post_api_tasks e t d w)) =
           calls w @ [Pg_query insert_sql [t, d], Redis_del cacheKey]"
    by (rule create_calls [OF assms])
next
  assume del: "fails e (Redis_del cacheKey) = None"
  show "fst (post_api_tasks e t d w) = \<lparr>status = 201, body = Json (row_js row)\<rparr>"
    using create_ok [OF assms del] by simp
  show "redis (snd (post_api_tasks e t d w)) cacheKey = None"
    using create_ok [OF assms del] by simp
next
  assume del: "fails e (Redis_del cacheKey) = None" and up: "\<forall>c. fails e' c = None"
  let ?w1 = "snd (post_api_tasks e t d w)"
  let ?rows = "order_by_created_at_desc (tie_order e') (tasks ?w1)"
  let ?elems = "map row_js ?rows"
  have t1: "tasks ?w1 = tasks w @ [row]" and r1: "redis ?w1 cacheKey = None"
    and c1: "calls ?w1 = calls w @ [Pg_query insert_sql [t, d], Redis_del cacheKey]"
    using create_ok [OF assms del] by simp_all
  have "lookup e' ?w1 cacheKey = None" using r1 by (simp add: lookup_def)
  note miss = miss_ok [OF up this]
  have "mset ?rows = mset (tasks w @ [row])" using t1 by (simp add: order_mset)
  then have m: "mset ?elems = mset (map row_js (tasks w @ [row]))"
    by (metis mset_map)
  then have "set ?elems = set (map row_js (tasks w @ [row]))" by (rule mset_eq_setD)
  then have s: "row_js row \<in> set ?elems" by simp
  have g: "fst (get_api_tasks e' ?w1) =
             \<lparr>status = 200,
              body = Json (JObj [(''source'', JStr ''database''), (''data'', JArr ?elems)])\<rparr>"
    using miss by (simp add: rows_js_def)
  have c: "calls (snd (get_api_tasks e' ?w1)) =
             calls w @ [Pg_query insert_sql [t, d], Redis_del cacheKey, Redis_get cacheKey,
               Pg_query select_sql [], Redis_setEx cacheKey 60 (JSON_stringify (JArr ?elems))]"
    using miss c1 by (simp add: rows_js_def)
  from s m g c show "\<exists>elems. row_js row \<in> set elems
          \<and> mset elems = mset (map row_js (tasks w @ [row]))
          \<and> fst (get_api_tasks e' ?w1) =
               \<lparr>status = 200,
                body = Json (JObj [(''source'', JStr ''database''), (''data'', JArr elems)])\<rparr>
          \<and> calls (snd (get_api_tasks e' ?w1)) =
               calls w @ [Pg_query insert_sql [t, d], Redis_del cacheKey, Redis_get cacheKey,
                 Pg_query select_sql [], Redis_setEx cacheKey 60 (JSON_stringify (JArr elems))]"
    by blast
next
  assume "fails e (Redis_del cacheKey) \<noteq> None"
  with assms show "redis (snd (post_api_tasks e t d w)) = redis w"
    by (auto simp: post_api_tasks_def pg_query_insert_def redis_del_def failure_def issue_def
          Let_def split: option.splits if_splits prod.splits sum.splits)
qed

text \<open>
  The scenario of the specification: on the empty store with a warm cache (holding the
  empty list), \<^verbatim>\<open>create("A", "d1")\<close> and then a list call.
\<close>

theorem create_then_list_contains_task_witness:
  "fst (pg_query_insert (quiet 5000) (Some ''A'') (Some ''d1'') (snd (get_api_tasks (quiet 0) empty_db))) =
     Inr \<lparr>id' = 1, title = ''A'', description = Some ''d1'', completed = Some False,
          created_at = Some 5000, updated_at = Some 5000\<rparr>
   \<and> fails (quiet 5000) (Redis_del cacheKey) = None
   \<and> (\<forall>c. fails (quiet 6000) c = None)
   \<and> redis (snd (get_api_tasks (quiet 0) empty_db)) cacheKey = Some (''[]'', Some 60000)
   \<and> redis (snd (post_api_tasks (quiet 5000) (Some ''A'') (Some ''d1'')
               (snd (get_api_tasks (quiet 0) empty_db)))) cacheKey = None
   \<and> fst (get_api_tasks (quiet 6000) (snd (post_api_tasks (quiet 5000) (Some ''A'') (Some ''d1'')
               (snd (get_api_tasks (quiet 0) empty_db))))) =
       \<lparr>status = 200,
        body = Json (JObj [(''source'', JStr ''database''),
                 (''data'', JArr [row_js \<lparr>id' = 1, title = ''A'', description = Some ''d1'',
                     completed = Some False, created_at = Some 5000, updated_at = Some 5000\<rparr>])])\<rparr>"
proof -
  let ?w = "snd (get_api_tasks (quiet 0) empty_db)"
  let ?row = "\<lparr>id' = 1, title = ''A'', description = Some ''d1'', completed = Some False,
          created_at = Some 5000, updated_at = Some (5000::nat)\<rparr>"
  have h1: "fst (pg_query_insert (quiet 5000) (Some ''A'') (Some ''d1'') ?w) = Inr ?row"
    by (simp add: warm_cache) (simp add: model_defs example_defs)
  have h2: "fails (quiet 5000) (Redis_del cacheKey) = None" by (simp add: quiet_def)
  have h3: "\<forall>c. fails (quiet 6000) c = None" by (simp add: quiet_def)
  have c: "redis ?w cacheKey = Some (''[]'', Some 60000)"
    by (simp add: warm_cache cacheKey_def)
  from create_then_list_contains_task [OF h1, of "quiet 6000"] h2 h3
  obtain elems where r: "mset elems = mset (map row_js (tasks ?w @ [?row]))"
    and g: "fst (get_api_tasks (quiet 6000) (snd (post_api_tasks (quiet 5000) (Some ''A'') (Some ''d1'') ?w))) =
               \<lparr>status = 200,
                body = Json (JObj [(''source'', JStr ''database''), (''data'', JArr elems)])\<rparr>"
    and d: "redis (snd (post_api_tasks (quiet 5000) (Some ''A'') (Some ''d1'') ?w)) cacheKey = None"
    by blast
  from r have "mset elems = {#row_js ?row#}" by (simp add: warm_cache)
  then have "elems = [row_js ?row]" by (metis mset_single_iff_right)
  with h1 h2 h3 c d g show ?thesis by simp
qed

subsection \<open>C2\<close>

text \<open>
  C2, as stated, fails: \<^verbatim>\<open>server.js\<close> validates nothing. A create with the empty title
  issues the \<^verbatim>\<open>INSERT\<close>, which PostgreSQL accepts (the empty string is not NULL), answers
  201, leaves the row in the table and deletes the cache key.
\<close>

theorem empty_title_is_inserted:
  "fst (post_api_tasks (quiet 5000) (Some []) (Some ''d1'') empty_db) =
     \<lparr>status = 201,
      body = Json (row_js \<lparr>id' = 1, title = [], description = Some ''d1'', completed = Some False,
                          created_at = Some 5000, updated_at = Some 5000\<rparr>)\<rparr>
   \<and> tasks (snd (post_api_tasks (quiet 5000) (Some []) (Some ''d1'') empty_db)) =
       [\<lparr>id' = 1, title = [], description = Some ''d1'', completed = Some False,
         created_at = Some 5000, updated_at = Some 5000\<rparr>]
   \<and> calls (snd (post_api_tasks (quiet 5000) (Some []) (Some ''d1'') empty_db)) =
       [Pg_query insert_sql [Some [], Some ''d1''], Redis_del ''tasks:all'']"
  by (simp add: model_defs example_defs)

text \<open>
  C2, amended. A create without a title (\<^verbatim>\<open>undefined\<close> or \<^verbatim>\<open>null\<close>) is turned down by the
  store, not by the service: the \<^verbatim>\<open>INSERT\<close> is issued, once, and fails; the response is 500
  with the message of the error; no row is inserted, and Redis is not called, so the cache
  is neither read, written nor deleted. The error is the violation of
  \<^verbatim>\<open>title ... NOT NULL\<close> when the store answers, the description has no NUL character and
  the sequence of ids is not used up. A title that is present but empty is treated like
  any other title: when the store answers, the description has no NUL character, the
  sequence is not used up and its next value is not an id of the table yet, the row is
  inserted with the empty title and the deletion of the cache key is issued; if that
  deletion is not rejected, the response is 201 with the row and the key is gone.
\<close>

theorem missing_title_rejected_by_store:
  "((\<exists>err. fst (post_api_tasks e None d w) = \<lparr>status = 500, body = Error_message err\<rparr>)
     \<and> tasks (snd (post_api_tasks e None d w)) = tasks w
     \<and> redis (snd (post_api_tasks e None d w)) = redis w
     \<and> calls (snd (post_api_tasks e None d w)) = calls w @ [Pg_query insert_sql [None, d]])
   \<and> (fails e (Pg_query insert_sql [None, d]) = None \<and> \<not> has_nul d
        \<and> tasks_id_seq w < serial_max
      \<longrightarrow> fst (post_api_tasks e None d w) =
            \<lparr>status = 500, body = Error_message NotNullViolation\<rparr>)
   \<and> (fails e (Pg_query insert_sql [Some [], d]) = None \<and> \<not> has_nul d
        \<and> tasks_id_seq w < serial_max \<and> tasks_id_seq w + 1 \<notin> set (map id' (tasks w))
      \<longrightarrow> tasks (snd (post_api_tasks e (Some []) d w)) =
            tasks w @ [\<lparr>id' = tasks_id_seq w + 1, title = [], description = d,
                         completed = Some False,
                         created_at = Some (now e), updated_at = Some (now e)\<rparr>]
          \<and> calls (snd (post_api_tasks e (Some []) d w)) =
              calls w @ [Pg_query insert_sql [Some [], d], Redis_del cacheKey]
          \<and> (fails e (Redis_del cacheKey) = None
              \<longrightarrow> fst (post_api_tasks e (Some []) d w) =
                    \<lparr>status = 201,
                     body = Json (row_js \<lparr>id' = tasks_id_seq w + 1, title = [], description = d,
                                          completed = Some False,
                                          created_at = Some (now e), updated_at = Some (now e)\<rparr>)\<rparr>
                  \<and> redis (snd (post_api_tasks e (Some []) d w)) cacheKey = None))"
proof -
  have p1: "(\<exists>err. fst (post_api_tasks e None d w) = \<lparr>status = 500, body = Error_message err\<rparr>)
     \<and> tasks (snd (post_api_tasks e None d w)) = tasks w
     \<and> redis (snd (post_api_tasks e None d w)) = redis w
     \<and> calls (snd (post_api_tasks e None d w)) = calls w @ [Pg_query insert_sql [None, d]]"
    by (auto simp: post_api_tasks_def pg_query_insert_def failure_def issue_def Let_def
          split: option.splits if_splits prod.splits sum.splits)
  have p2: "fails e (Pg_query insert_sql [None, d]) = None \<and> \<not> has_nul d
        \<and> tasks_id_seq w < serial_max
      \<longrightarrow> fst (post_api_tasks e None d w) =
            \<lparr>status = 500, body = Error_message NotNullViolation\<rparr>"
    by (auto simp: post_api_tasks_def pg_query_insert_def failure_def issue_def Let_def
          has_nul_def too_long_def)
  have p3: "fails e (Pg_query insert_sql [Some [], d]) = None \<and> \<not> has_nul d
        \<and> tasks_id_seq w < serial_max \<and> tasks_id_seq w + 1 \<notin> set (map id' (tasks w))
      \<longrightarrow> tasks (snd (post_api_tasks e (Some []) d w)) =
            tasks w @ [\<lparr>id' = tasks_id_seq w + 1, title = [], description = d,
                         completed = Some False,
                         created_at = Some (now e), updated_at = Some (now e)\<rparr>]
          \<and> calls (snd (post_api_tasks e (Some []) d w)) =
              calls w @ [Pg_query insert_sql [Some [], d], Redis_del cacheKey]
          \<and> (fails e (Redis_del cacheKey) = None
              \<longrightarrow> fst (post_api_tasks e (Some []) d w) =
                    \<lparr>status = 201,
                     body = Json (row_js \<lparr>id' = tasks_id_seq w + 1, title = [], description = d,
                                          completed = Some False,
                                          created_at = Some (now e), updated_at = Some (now e)\<rparr>)\<rparr>
                  \<and> redis (snd (post_api_tasks e (Some []) d w)) cacheKey = None)"
    by (auto simp: post_api_tasks_def pg_query_insert_def redis_del_def failure_def issue_def
          Let_def has_nul_def too_long_def split: option.splits)
  show ?thesis by (rule conjI [OF p1 conjI [OF p2 p3]])
qed

text \<open>
  On the sample table with every call answered: the missing title is the violation of
  \<^verbatim>\<open>NOT NULL\<close>, the empty title is stored with the id 5.
\<close>

theorem missing_title_rejected_by_store_witness:
  "fails (quiet 5000) (Pg_query insert_sql [None, Some ''d1'']) = None
   \<and> fails (quiet 5000) (Pg_query insert_sql [Some [], Some ''d1'']) = None
   \<and> fails (quiet 5000) (Redis_del cacheKey) = None
   \<and> \<not> has_nul (Some ''d1'') \<and> tasks_id_seq (init_script 0) < serial_max
   \<and> tasks_id_seq (init_script 0) + 1 \<notin> set (map id' (tasks (init_script 0)))
   \<and> fst (post_api_tasks (quiet 5000) None (Some ''d1'') (init_script 0)) =
       \<lparr>status = 500, body = Error_message NotNullViolation\<rparr>
   \<and> tasks (snd (post_api_tasks (quiet 5000) None (Some ''d1'') (init_script 0))) = tasks (init_script 0)
   \<and> redis (snd (post_api_tasks (quiet 5000) None (Some ''d1'') (init_script 0))) = redis (init_script 0)
   \<and> calls (snd (post_api_tasks (quiet 5000) None (Some ''d1'') (init_script 0))) =
       calls (init_script 0) @ [Pg_query insert_sql [None, Some ''d1'']]
   \<and> fst (post_api_tasks (quiet 5000) (Some []) (Some ''d1'') (init_script 0)) =
       \<lparr>status = 201,
        body = Json (row_js \<lparr>id' = 5, title = [], description = Some ''d1'',
                             completed = Some False,
                             created_at = Some 5000, updated_at = Some 5000\<rparr>)\<rparr>"
proof -
  have h: "fails (quiet 5000) (Pg_query insert_sql [None, Some ''d1'']) = None"
    "fails (quiet 5000) (Pg_query insert_sql [Some [], Some ''d1'']) = None"
    "fails (quiet 5000) (Redis_del cacheKey) = None"
    "\<not> has_nul (Some ''d1'')" "tasks_id_seq (init_script 0) < serial_max"
    "tasks_id_seq (init_script 0) + 1 \<notin> set (map id' (tasks (init_script 0)))"
    by (simp_all add: quiet_def has_nul_def serial_max_def init_script_def sample_def)
  have v: "tasks_id_seq (init_script 0) + 1 = 5" "now (quiet 5000) = 5000"
    by (simp_all add: init_script_def quiet_def)
  note t = missing_title_rejected_by_store [of "quiet 5000" "Some ''d1''" "init_script 0"]
  from t h have a: "fst (post_api_tasks (quiet 5000) None (Some ''d1'') (init_script 0)) =
       \<lparr>status = 500, body = Error_message NotNullViolation\<rparr>"
    by blast
  from t have b: "tasks (snd (post_api_tasks (quiet 5000) None (Some ''d1'') (init_script 0))) = tasks (init_script 0)"
    "redis (snd (post_api_tasks (quiet 5000) None (Some ''d1'') (init_script 0))) = redis (init_script 0)"
    "calls (snd (post_api_tasks (quiet 5000) None (Some ''d1'') (init_script 0))) =
       calls (init_script 0) @ [Pg_query insert_sql [None, Some ''d1'']]"
    by blast+
  from t h have "fst (post_api_tasks (quiet 5000) (Some []) (Some ''d1'') (init_script 0)) =
       \<lparr>status = 201,
        body = Json (row_js \<lparr>id' = tasks_id_seq (init_script 0) + 1, title = [],
                             description = Some ''d1'', completed = Some False,
                             created_at = Some (now (quiet 5000)),
                             updated_at = Some (now (quiet 5000))\<rparr>)\<rparr>"
    by blast
  then have c: "fst (post_api_tasks (quiet 5000) (Some []) (Some ''d1'') (init_script 0)) =
       \<lparr>status = 201,
        body = Json (row_js \<lparr>id' = 5, title = [], description = Some ''d1'',
                             completed = Some False,
                             created_at = Some 5000, updated_at = Some 5000\<rparr>)\<rparr>"
    unfolding v .
  from h a b c show ?thesis by blast
qed

subsection \<open>C3\<close>

text \<open>
  C3. A list call whose \<^verbatim>\<open>GET\<close> is answered with an entry that has not expired, holding
  the JSON text of a sequence of rows, answers 200 with that sequence (as \<^verbatim>\<open>JSON.parse\<close>
  reads it back) tagged \<^verbatim>\<open>cache\<close>; the only call issued is the \<^verbatim>\<open>GET\<close>. If the entry is
  absent or expired (and the collaborators answer), the call issues the
  \<^verbatim>\<open>SELECT ... ORDER BY created_at DESC\<close>, stores the JSON text of its rows under
  \<^verbatim>\<open>tasks:all\<close> with an expiry 60 seconds ahead, and answers 200 with these rows tagged
  \<^verbatim>\<open>database\<close>.
\<close>

theorem list_hit_and_miss:
  "(fails e (Redis_get cacheKey) = None
      \<and> redis w cacheKey = Some (JSON_stringify (rows_js cached), expiry) \<and> \<not> expired e expiry
    \<longrightarrow> get_api_tasks e w =
          (\<lparr>status = 200,
            body = Json (JObj [(''source'', JStr ''cache''), (''data'', toJSON (rows_js cached))])\<rparr>,
           w\<lparr>calls := calls w @ [Redis_get cacheKey]\<rparr>))
   \<and> ((\<forall>c. fails e c = None)
      \<and> (redis w cacheKey = None \<or> (\<exists>s t. redis w cacheKey = Some (s, Some t) \<and> t < millis (now e)))
    \<longrightarrow> (\<exists>rows. rows = order_by_created_at_desc (tie_order e) (tasks w)
          \<and> get_api_tasks e w =
             (\<lparr>status = 200,
               body = Json (JObj [(''source'', JStr ''database''), (''data'', rows_js rows)])\<rparr>,
              w\<lparr>redis := (redis w)(cacheKey \<mapsto>
                     (JSON_stringify (rows_js rows), Some (millis (now e) + 60000))),
                calls := calls w @ [Redis_get cacheKey, Pg_query select_sql [],
                     Redis_setEx cacheKey 60 (JSON_stringify (rows_js rows))]\<rparr>)))"
proof (intro conjI impI)
  assume a: "fails e (Redis_get cacheKey) = None
      \<and> redis w cacheKey = Some (JSON_stringify (rows_js cached), expiry) \<and> \<not> expired e expiry"
  then have "lookup e w cacheKey = Some (JSON_stringify (rows_js cached))"
    by (simp add: lookup_def)
  with a show "get_api_tasks e w =
          (\<lparr>status = 200,
            body = Json (JObj [(''source'', JStr ''cache''), (''data'', toJSON (rows_js cached))])\<rparr>,
           w\<lparr>calls := calls w @ [Redis_get cacheKey]\<rparr>)"
    by (simp add: hit_ok JSON_parse_stringify)
next
  assume a: "(\<forall>c. fails e c = None)
      \<and> (redis w cacheKey = None \<or> (\<exists>s t. redis w cacheKey = Some (s, Some t) \<and> t < millis (now e)))"
  then have "lookup e w cacheKey = None" by (simp add: lookup_None_iff)
  with a show "\<exists>rows. rows = order_by_created_at_desc (tie_order e) (tasks w)
          \<and> get_api_tasks e w =
             (\<lparr>status = 200,
               body = Json (JObj [(''source'', JStr ''database''), (''data'', rows_js rows)])\<rparr>,
              w\<lparr>redis := (redis w)(cacheKey \<mapsto>
                     (JSON_stringify (rows_js rows), Some (millis (now e) + 60000))),
                calls := calls w @ [Redis_get cacheKey, Pg_query select_sql [],
                     Redis_setEx cacheKey 60 (JSON_stringify (rows_js rows))]\<rparr>)"
    by (simp add: miss_ok)
qed

text \<open>
  The cache filled with the sample rows one second after \<^verbatim>\<open>01-init.sql\<close>: a list call 25
  seconds later is a hit, one 61 seconds later finds the entry expired and asks the store
  again.
\<close>

theorem list_hit_and_miss_witness:
  "redis (snd (get_api_tasks (quiet 1000000) (init_script 0))) cacheKey =
       Some (JSON_stringify (rows_js (tasks (init_script 0))), Some 61000)
   \<and> \<not> expired (quiet 26000000) (Some 61000)
   \<and> fst (get_api_tasks (quiet 26000000) (snd (get_api_tasks (quiet 1000000) (init_script 0)))) =
       \<lparr>status = 200,
        body = Json (JObj [(''source'', JStr ''cache''),
                           (''data'', toJSON (rows_js (tasks (init_script 0))))])\<rparr>
   \<and> calls (snd (get_api_tasks (quiet 26000000) (snd (get_api_tasks (quiet 1000000) (init_script 0))))) =
       calls (snd (get_api_tasks (quiet 1000000) (init_script 0))) @ [Redis_get cacheKey]
   \<and> (61000::nat) < millis (now (quiet 62000000))
   \<and> fst (get_api_tasks (quiet 62000000) (snd (get_api_tasks (quiet 1000000) (init_script 0)))) =
       \<lparr>status = 200,
        body = Json (JObj [(''source'', JStr ''database''),
                           (''data'', rows_js (tasks (init_script 0)))])\<rparr>
   \<and> redis (snd (get_api_tasks (quiet 62000000) (snd (get_api_tasks (quiet 1000000) (init_script 0))))) cacheKey =
       Some (JSON_stringify (rows_js (tasks (init_script 0))), Some 122000)"
proof -
  let ?init = "init_script 0"
  let ?w = "snd (get_api_tasks (quiet 1000000) ?init)"
  have f: "\<forall>c. fails (quiet 1000000) c = None" "\<forall>c. fails (quiet 26000000) c = None"
    "\<forall>c. fails (quiet 62000000) c = None"
    by (simp_all add: quiet_def)
  have l: "lookup (quiet 1000000) ?init cacheKey = None"
    by (simp add: lookup_def init_script_def)
  have o: "order_by_created_at_desc (tie_order (quiet 1000000)) (tasks ?init) = tasks ?init"
    by (simp add: order_by_created_at_desc_def desc_key_def example_defs)
  have m: "millis (now (quiet 1000000)) + 60000 = 61000" by (simp add: quiet_def millis_def)
  note first = miss_ok [OF f(1) l, unfolded o m]
  have c: "redis ?w cacheKey = Some (JSON_stringify (rows_js (tasks ?init)), Some 61000)"
    using first by simp
  have tw: "tasks ?w = tasks ?init" using first by simp
  have x: "\<not> expired (quiet 26000000) (Some 61000)"
    by (simp add: expired_def quiet_def millis_def)
  have y: "(61000::nat) < millis (now (quiet 62000000))"
    by (simp add: quiet_def millis_def)
  have hit: "get_api_tasks (quiet 26000000) ?w =
          (\<lparr>status = 200,
            body = Json (JObj [(''source'', JStr ''cache''),
                               (''data'', toJSON (rows_js (tasks ?init)))])\<rparr>,
           ?w\<lparr>calls := calls ?w @ [Redis_get cacheKey]\<rparr>)"
    using list_hit_and_miss [of "quiet 26000000" ?w "tasks ?init" "Some 61000"] c f x by blast
  obtain rows where r: "rows = order_by_created_at_desc (tie_order (quiet 62000000)) (tasks ?w)"
    and g: "get_api_tasks (quiet 62000000) ?w =
             (\<lparr>status = 200,
               body = Json (JObj [(''source'', JStr ''database''), (''data'', rows_js rows)])\<rparr>,
              ?w\<lparr>redis := (redis ?w)(cacheKey \<mapsto>
                     (JSON_stringify (rows_js rows), Some (millis (now (quiet 62000000)) + 60000))),
                calls := calls ?w @ [Redis_get cacheKey, Pg_query select_sql [],
                     Redis_setEx cacheKey 60 (JSON_stringify (rows_js rows))]\<rparr>)"
    using list_hit_and_miss [of "quiet 62000000" ?w "tasks ?init" "Some 61000"] c f y by blast
  have e: "rows = tasks ?init"
    unfolding r tw by (simp add: order_by_created_at_desc_def desc_key_def example_defs)
  have t: "millis (now (quiet 62000000)) + 60000 = 122000" by (simp add: quiet_def millis_def)
  have miss: "fst (get_api_tasks (quiet 62000000) ?w) =
       \<lparr>status = 200,
        body = Json (JObj [(''source'', JStr ''database''), (''data'', rows_js (tasks ?init))])\<rparr>"
    and miss2: "redis (snd (get_api_tasks (quiet 62000000) ?w)) cacheKey =
       Some (JSON_stringify (rows_js (tasks ?init)), Some 122000)"
    using g unfolding e t by simp_all
  have hit1: "fst (get_api_tasks (quiet 26000000) ?w) =
       \<lparr>status = 200,
        body = Json (JObj [(''source'', JStr ''cache''),
                           (''data'', toJSON (rows_js (tasks ?init)))])\<rparr>"
    and hit2: "calls (snd (get_api_tasks (quiet 26000000) ?w)) = calls ?w @ [Redis_get cacheKey]"
    using hit by simp_all
  from c x hit1 hit2 y miss miss2 show ?thesis by blast
qed

subsection \<open>C4\<close>

text \<open>
  C4, as stated, fails in its second half: the query orders by \<^verbatim>\<open>created_at\<close> alone. The
  four sample rows of \<^verbatim>\<open>01-init.sql\<close> share their \<^verbatim>\<open>created_at\<close>. Once the row with the id
  2 has been updated by hand (\<^verbatim>\<open>UPDATE tasks SET completed = true WHERE id = 2\<close>), it lies
  behind the others in the heap, and a list call on which the store delivers the equal
  rows in heap order returns 1, 3, 4, 2.
\<close>

theorem ties_not_in_id_order:
  "map id' (tasks (update_completed 2000000 2 True (init_script 0))) = [1, 3, 4, 2]
   \<and> map created_at (tasks (update_completed 2000000 2 True (init_script 0)))
       = [Some 0, Some 0, Some 0, Some 0]
   \<and> member ''data'' (body (fst (get_api_tasks (quiet 5000000)
         (update_completed 2000000 2 True (init_script 0))))) =
     Some (JArr
       [row_js (sample 0 1 ''Learn Docker'' ''Understand containerization and Docker basics'' True),
        row_js (sample 0 3 ''Setup EKS Cluster'' ''Create production-ready EKS cluster on AWS'' False),
        row_js (sample 0 4 ''Implement CI/CD'' ''Setup Jenkins pipeline for automated deployments'' False),
        row_js \<lparr>id' = 2, title = ''Learn Kubernetes'',
                description = Some ''Master pod, deployment, and service concepts'',
                completed = Some True, created_at = Some 0, updated_at = Some 2000000\<rparr>])"
  by (simp add: model_defs member_def order_by_created_at_desc_def desc_key_def example_defs
        update_completed_def update_updated_at_column_def rows_js_def)

text \<open>
  C4, amended. In every state that requests to the server lead to, from a state whose
  cache entry (if any) is the JSON text of a sequence ordered by \<^verbatim>\<open>created_at\<close> descending
  (a NULL \<^verbatim>\<open>created_at\<close> first), the entry is again such a text, and the sequence of
  every list call that answers 200 is ordered by \<^verbatim>\<open>created_at\<close> descending, whether it is
  read from the store or from the cache. A sequence read from the store (entry absent or
  expired, collaborators answering) holds every stored task once, and its tasks of equal
  \<^verbatim>\<open>created_at\<close> appear in the order in which the executor of the store delivers them
  (and in heap order where it does not tell them apart), which need not be by \<^verbatim>\<open>id\<close>.
\<close>

theorem list_ordered_by_created_at:
  assumes "cache_sorted w"
  shows "cache_sorted (run rs w)
     \<and> (status (fst (get_api_tasks e (run rs w))) = 200 \<longrightarrow>
          (\<exists>rows. sorted_wrt precedes rows
             \<and> (member ''data'' (body (fst (get_api_tasks e (run rs w)))) = Some (rows_js rows)
                \<or> member ''data'' (body (fst (get_api_tasks e (run rs w))))
                     = Some (toJSON (rows_js rows)))))
     \<and> ((\<forall>c. fails e c = None) \<and> lookup e (run rs w) cacheKey = None \<longrightarrow>
          (\<exists>rows. member ''data'' (body (fst (get_api_tasks e (run rs w)))) = Some (rows_js rows)
             \<and> mset rows = mset (tasks (run rs w))
             \<and> sorted_wrt precedes rows
             \<and> (\<forall>c. [r \<leftarrow> rows. created_at r = c]
                    = sort_key (tie_order e) [r \<leftarrow> tasks (run rs w). created_at r = c])))"
proof (intro conjI impI)
  show inv: "cache_sorted (run rs w)" by (rule run_cache_sorted [OF assms])
  assume "status (fst (get_api_tasks e (run rs w))) = 200"
  with inv show "\<exists>rows. sorted_wrt precedes rows
             \<and> (member ''data'' (body (fst (get_api_tasks e (run rs w)))) = Some (rows_js rows)
                \<or> member ''data'' (body (fst (get_api_tasks e (run rs w))))
                     = Some (toJSON (rows_js rows)))"
    by (rule list_200_sorted)
next
  assume a: "(\<forall>c. fails e c = None) \<and> lookup e (run rs w) cacheKey = None"
  let ?w = "run rs w"
  let ?rows = "order_by_created_at_desc (tie_order e) (tasks ?w)"
  have "member ''data'' (body (fst (get_api_tasks e ?w))) = Some (rows_js ?rows)"
    using a miss_ok [of e ?w] by (simp add: member_def)
  moreover have "mset ?rows = mset (tasks ?w)" by (rule order_mset)
  moreover have "sorted_wrt precedes ?rows" by (rule order_sorted)
  moreover have "\<forall>c. [r \<leftarrow> ?rows. created_at r = c]
                    = sort_key (tie_order e) [r \<leftarrow> tasks ?w. created_at r = c]"
    by (simp add: order_ties)
  ultimately show "\<exists>rows. member ''data'' (body (fst (get_api_tasks e ?w))) = Some (rows_js rows)
             \<and> mset rows = mset (tasks ?w)
             \<and> sorted_wrt precedes rows
             \<and> (\<forall>c. [r \<leftarrow> rows. created_at r = c]
                    = sort_key (tie_order e) [r \<leftarrow> tasks ?w. created_at r = c])"
    by blast
qed

text \<open>
  Two tasks created at different times on the empty store: a list call reads them from
  the store, the later one first; a second list call 20 seconds later is answered from the
  cache with a sequence in that order.
\<close>

theorem list_ordered_by_created_at_witness:
  "cache_sorted empty_db
   \<and> (\<forall>c. fails (quiet 9000) c = None)
   \<and> lookup (quiet 9000) (run [(POST_api_tasks (Some ''A'') (Some ''d1''), quiet 5000),
                                (POST_api_tasks (Some ''B'') (Some ''d2''), quiet 7000)] empty_db) cacheKey = None
   \<and> member ''data'' (body (fst (get_api_tasks (quiet 9000)
         (run [(POST_api_tasks (Some ''A'') (Some ''d1''), quiet 5000),
               (POST_api_tasks (Some ''B'') (Some ''d2''), quiet 7000)] empty_db)))) =
       Some (rows_js
         [\<lparr>id' = 2, title = ''B'', description = Some ''d2'', completed = Some False,
           created_at = Some 7000, updated_at = Some 7000\<rparr>,
          \<lparr>id' = 1, title = ''A'', description = Some ''d1'', completed = Some False,
           created_at = Some 5000, updated_at = Some 5000\<rparr>])
   \<and> sorted_wrt precedes
         [\<lparr>id' = 2, title = ''B'', description = Some ''d2'', completed = Some False,
           created_at = Some 7000, updated_at = Some 7000\<rparr>,
          \<lparr>id' = 1, title = ''A'', description = Some ''d1'', completed = Some False,
           created_at = Some 5000, updated_at = Some 5000\<rparr>]
   \<and> status (fst (get_api_tasks (quiet 20009000)
         (run [(POST_api_tasks (Some ''A'') (Some ''d1''), quiet 5000),
               (POST_api_tasks (Some ''B'') (Some ''d2''), quiet 7000),
               (GET_api_tasks, quiet 9000)] empty_db))) = 200
   \<and> member ''source'' (body (fst (get_api_tasks (quiet 20009000)
         (run [(POST_api_tasks (Some ''A'') (Some ''d1''), quiet 5000),
               (POST_api_tasks (Some ''B'') (Some ''d2''), quiet 7000),
               (GET_api_tasks, quiet 9000)] empty_db)))) = Some (JStr ''cache'')
   \<and> (\<exists>rows. sorted_wrt precedes rows
          \<and> (member ''data'' (body (fst (get_api_tasks (quiet 20009000)
                 (run [(POST_api_tasks (Some ''A'') (Some ''d1''), quiet 5000),
                       (POST_api_tasks (Some ''B'') (Some ''d2''), quiet 7000),
                       (GET_api_tasks, quiet 9000)] empty_db)))) = Some (rows_js rows)
             \<or> member ''data'' (body (fst (get_api_tasks (quiet 20009000)
                 (run [(POST_api_tasks (Some ''A'') (Some ''d1''), quiet 5000),
                       (POST_api_tasks (Some ''B'') (Some ''d2''), quiet 7000),
                       (GET_api_tasks, quiet 9000)] empty_db)))) = Some (toJSON (rows_js rows))))"
proof -
  let ?rs = "[(POST_api_tasks (Some ''A'') (Some ''d1''), quiet 5000),
              (POST_api_tasks (Some ''B'') (Some ''d2''), quiet 7000)]"
  let ?rs3 = "[(POST_api_tasks (Some ''A'') (Some ''d1''), quiet 5000),
               (POST_api_tasks (Some ''B'') (Some ''d2''), quiet 7000),
               (GET_api_tasks, quiet 9000)]"
  let ?b = "\<lparr>id' = 2, title = ''B'', description = Some ''d2'', completed = Some False,
           created_at = Some 7000, updated_at = Some (7000::nat)\<rparr>"
  let ?a = "\<lparr>id' = 1, title = ''A'', description = Some ''d1'', completed = Some False,
           created_at = Some 5000, updated_at = Some (5000::nat)\<rparr>"
  have i: "cache_sorted empty_db" by (simp add: cache_sorted_def empty_db_def)
  have f: "\<forall>c. fails (quiet 9000) c = None" by (simp add: quiet_def)
  have l: "lookup (quiet 9000) (run ?rs empty_db) cacheKey = None"
    by (simp add: model_defs example_defs)
  have t: "tasks (run ?rs empty_db) = [?a, ?b]"
    by (simp add: model_defs example_defs)
  have o: "order_by_created_at_desc (tie_order (quiet 9000)) [?a, ?b] = [?b, ?a]"
    by (simp add: order_by_created_at_desc_def desc_key_def quiet_def)
  have m: "millis (now (quiet 9000)) + 60000 = 60009" by (simp add: quiet_def millis_def)
  note first = miss_ok [OF f l, unfolded t o m]
  have d: "member ''data'' (body (fst (get_api_tasks (quiet 9000) (run ?rs empty_db)))) =
       Some (rows_js [?b, ?a])"
    using first by (simp add: member_def)
  have s: "sorted_wrt precedes [?b, ?a]" by (simp add: precedes_def)
  have r3: "run ?rs3 empty_db = snd (get_api_tasks (quiet 9000) (run ?rs empty_db))"
    by simp
  have g: "fails (quiet 20009000) (Redis_get cacheKey) = None" by (simp add: quiet_def)
  have "lookup (quiet 20009000) (run ?rs3 empty_db) cacheKey
          = Some (JSON_stringify (rows_js [?b, ?a]))"
    unfolding r3 using first by (simp add: lookup_def expired_def millis_def quiet_def)
  from hit_ok [OF g this JSON_parse_stringify]
  have st: "status (fst (get_api_tasks (quiet 20009000) (run ?rs3 empty_db))) = 200"
    and src: "member ''source'' (body (fst (get_api_tasks (quiet 20009000) (run ?rs3 empty_db))))
                = Some (JStr ''cache'')"
    by (simp_all add: member_def)
  note ordered = list_ordered_by_created_at [OF i]
  from ordered [of ?rs3 "quiet 20009000"] st
  have ex: "\<exists>rows. sorted_wrt precedes rows
          \<and> (member ''data'' (body (fst (get_api_tasks (quiet 20009000) (run ?rs3 empty_db))))
               = Some (rows_js rows)
             \<or> member ''data'' (body (fst (get_api_tasks (quiet 20009000) (run ?rs3 empty_db))))
               = Some (toJSON (rows_js rows)))"
    by blast
  from i f l d s st src ex show ?thesis by blast
qed

subsection \<open>C5\<close>

text \<open>
  C5. A create whose \<^verbatim>\<open>INSERT\<close> fails answers 500 with the message of that error. The
  only call issued is the one \<^verbatim>\<open>INSERT\<close> (no second attempt, no call to Redis); the table
  and the Redis keys, the entry of \<^verbatim>\<open>tasks:all\<close> among them, are as before.
\<close>

theorem insert_failure_propagates:
  assumes "fst (pg_query_insert e t d w) = Inl err"
  shows "fst (post_api_tasks e t d w) = \<lparr>status = 500, body = Error_message err\<rparr>
     \<and> redis (snd (post_api_tasks e t d w)) = redis w
     \<and> tasks (snd (post_api_tasks e t d w)) = tasks w
     \<and> calls (snd (post_api_tasks e t d w)) = calls w @ [Pg_query insert_sql [t, d]]"
  using assms
  by (auto simp: post_api_tasks_def pg_query_insert_def failure_def issue_def Let_def
           split: option.splits if_splits prod.splits sum.splits)

text \<open>A title of 256 letters on a warm cache: the store refuses it, the cache entry stays.\<close>

theorem insert_failure_propagates_witness:
  "fst (pg_query_insert (quiet 5000) (Some (replicate 256 CHR ''a'')) None
          (snd (get_api_tasks (quiet 0) empty_db))) = Inl StringDataRightTruncation
   \<and> fst (post_api_tasks (quiet 5000) (Some (replicate 256 CHR ''a'')) None
          (snd (get_api_tasks (quiet 0) empty_db))) =
       \<lparr>status = 500, body = Error_message StringDataRightTruncation\<rparr>
   \<and> redis (snd (post_api_tasks (quiet 5000) (Some (replicate 256 CHR ''a'')) None
          (snd (get_api_tasks (quiet 0) empty_db)))) cacheKey = Some (''[]'', Some 60000)"
proof -
  let ?w = "snd (get_api_tasks (quiet 0) empty_db)"
  have h: "fst (pg_query_insert (quiet 5000) (Some (replicate 256 CHR ''a'')) None ?w)
             = Inl StringDataRightTruncation"
    by (simp add: pg_query_insert_def quiet_def has_nul_def too_long_def Let_def)
  have c: "redis ?w cacheKey = Some (''[]'', Some 60000)"
    by (simp add: warm_cache cacheKey_def)
  from insert_failure_propagates [OF h] h c show ?thesis by simp
qed

subsection \<open>C6\<close>

text \<open>
  C6, as stated, fails: the deletion is awaited inside the same \<^verbatim>\<open>try\<close> as the
  \<^verbatim>\<open>INSERT\<close>, so its rejection reaches the \<^verbatim>\<open>catch\<close>. With Redis unreachable the row is
  inserted and the caller is answered 500, not 201 with the task.
\<close>

theorem deletion_failure_fails_create:
  "fst (pg_query_insert (redis_down 5000) (Some ''A'') (Some ''d1'') (init_script 0)) =
     Inr \<lparr>id' = 5, title = ''A'', description = Some ''d1'', completed = Some False,
          created_at = Some 5000, updated_at = Some 5000\<rparr>
   \<and> fails (redis_down 5000) (Redis_del cacheKey) = Some ''The client is closed''
   \<and> fst (post_api_tasks (redis_down 5000) (Some ''A'') (Some ''d1'') (init_script 0)) =
       \<lparr>status = 500, body = Error_message (Rejected ''The client is closed'')\<rparr>"
  by (simp add: model_defs example_defs)

text \<open>
  C6, amended: when the \<^verbatim>\<open>INSERT\<close> succeeds and the deletion of the cache key is
  rejected, the caller is answered 500 with the message of the deletion's error. The row
  stays in the table (nothing is rolled back) and the Redis keys are as before, so a list
  kept under \<^verbatim>\<open>tasks:all\<close> stays until it expires.
\<close>

theorem deletion_failure_answers_500:
  assumes "fst (pg_query_insert e t d w) = Inr row" and "fails e (Redis_del cacheKey) = Some msg"
  shows "fst (post_api_tasks e t d w) = \<lparr>status = 500, body = Error_message (Rejected msg)\<rparr>
     \<and> tasks (snd (post_api_tasks e t d w)) = tasks w @ [row]
     \<and> redis (snd (post_api_tasks e t d w)) = redis w
     \<and> calls (snd (post_api_tasks e t d w)) =
         calls w @ [Pg_query insert_sql [t, d], Redis_del cacheKey]"
  using assms
  by (auto simp: post_api_tasks_def pg_query_insert_def redis_del_def failure_def issue_def Let_def
           split: option.splits if_splits prod.splits sum.splits)

text \<open>The sample table with Redis unreachable: the task is stored, the caller is told 500.\<close>

theorem deletion_failure_answers_500_witness:
  "fst (pg_query_insert (redis_down 5000) (Some ''B'') None (init_script 0)) =
     Inr \<lparr>id' = 5, title = ''B'', description = None, completed = Some False,
          created_at = Some 5000, updated_at = Some 5000\<rparr>
   \<and> fails (redis_down 5000) (Redis_del cacheKey) = Some ''The client is closed''
   \<and> fst (post_api_tasks (redis_down 5000) (Some ''B'') None (init_script 0)) =
       \<lparr>status = 500, body = Error_message (Rejected ''The client is closed'')\<rparr>
   \<and> tasks (snd (post_api_tasks (redis_down 5000) (Some ''B'') None (init_script 0))) =
       tasks (init_script 0) @
         [\<lparr>id' = 5, title = ''B'', description = None, completed = Some False,
           created_at = Some 5000, updated_at = Some 5000\<rparr>]"
proof -
  have h: "fst (pg_query_insert (redis_down 5000) (Some ''B'') None (init_script 0)) =
     Inr \<lparr>id' = 5, title = ''B'', description = None, completed = Some False,
          created_at = Some 5000, updated_at = Some 5000\<rparr>"
    by (simp add: model_defs example_defs)
  have f: "fails (redis_down 5000) (Redis_del cacheKey) = Some ''The client is closed''"
    by (simp add: redis_down_def)
  from deletion_failure_answers_500 [OF h f] h f show ?thesis by simp
qed

subsection \<open>C7\<close>

text \<open>
  C7. After a list call that was answered from the store (and so filled the cache), a
  list call at most 60 seconds later, whose \<^verbatim>\<open>GET\<close> is answered, is tagged \<^verbatim>\<open>cache\<close>, and
  the bytes sent for its \<^verbatim>\<open>data\<close> are those sent for the \<^verbatim>\<open>data\<close> of the first call: what
  \<^verbatim>\<open>JSON.parse\<close> reads from the text that \<^verbatim>\<open>JSON.stringify\<close> wrote is written by
  \<^verbatim>\<open>JSON.stringify\<close> as the same text again.
\<close>

theorem second_list_is_cached_and_identical:
  assumes "member ''source'' (body (fst (get_api_tasks e1 w))) = Some (JStr ''database'')"
    and "now e1 \<le> now e2" and "now e2 \<le> now e1 + 60000000"
    and "fails e2 (Redis_get cacheKey) = None"
  shows "status (fst (get_api_tasks e2 (snd (get_api_tasks e1 w)))) = 200
     \<and> member ''source'' (body (fst (get_api_tasks e2 (snd (get_api_tasks e1 w))))) = Some (JStr ''cache'')
     \<and> sent (member ''data'' (body (fst (get_api_tasks e2 (snd (get_api_tasks e1 w))))))
         = sent (member ''data'' (body (fst (get_api_tasks e1 w))))
     \<and> sent (member ''data'' (body (fst (get_api_tasks e1 w)))) \<noteq> None"
proof -
  obtain rows where g: "get_api_tasks e1 w =
      (\<lparr>status = 200,
        body = Json (JObj [(''source'', JStr ''database''), (''data'', rows_js rows)])\<rparr>,
       w\<lparr>redis := (redis w)(cacheKey \<mapsto> (JSON_stringify (rows_js rows), Some (millis (now e1) + 60000))),
         calls := calls w @ [Redis_get cacheKey, Pg_query select_sql [],
                    Redis_setEx cacheKey 60 (JSON_stringify (rows_js rows))]\<rparr>)"
    using populated [OF assms(1)] by blast
  let ?w1 = "snd (get_api_tasks e1 w)"
  have "millis (now e2) \<le> millis (now e1) + 60000"
    using assms(3) by (simp add: millis_def)
  then have "lookup e2 ?w1 cacheKey = Some (JSON_stringify (rows_js rows))"
    using g by (simp add: lookup_def expired_def)
  from hit_ok [OF assms(4) this JSON_parse_stringify]
  show ?thesis
    using g by (simp add: member_def sent_def stringify_toJSON)
qed

text \<open>
  The sample rows, listed one second after \<^verbatim>\<open>01-init.sql\<close> and again 25 seconds later. The
  first answer carries \<^verbatim>\<open>Date\<close> objects, the second the strings read from the cache.
\<close>

theorem second_list_is_cached_and_identical_witness:
  "member ''source'' (body (fst (get_api_tasks (quiet 1000000) (init_script 0)))) = Some (JStr ''database'')
   \<and> now (quiet 1000000) \<le> now (quiet 26000000)
   \<and> now (quiet 26000000) \<le> now (quiet 1000000) + 60000000
   \<and> fails (quiet 26000000) (Redis_get cacheKey) = None
   \<and> member ''source'' (body (fst (get_api_tasks (quiet 26000000)
        (snd (get_api_tasks (quiet 1000000) (init_script 0)))))) = Some (JStr ''cache'')
   \<and> sent (member ''data'' (body (fst (get_api_tasks (quiet 26000000)
        (snd (get_api_tasks (quiet 1000000) (init_script 0)))))))
       = sent (member ''data'' (body (fst (get_api_tasks (quiet 1000000) (init_script 0)))))
   \<and> member ''data'' (body (fst (get_api_tasks (quiet 1000000) (init_script 0)))) =
       Some (rows_js (tasks (init_script 0)))
   \<and> member ''data'' (body (fst (get_api_tasks (quiet 26000000)
        (snd (get_api_tasks (quiet 1000000) (init_script 0)))))) =
       Some (toJSON (rows_js (tasks (init_script 0))))"
proof -
  let ?w = "init_script 0"
  have f: "\<forall>c. fails (quiet 1000000) c = None" by (simp add: quiet_def)
  have l: "lookup (quiet 1000000) ?w cacheKey = None"
    by (simp add: lookup_def init_script_def)
  have o: "order_by_created_at_desc (tie_order (quiet 1000000)) (tasks ?w) = tasks ?w"
    by (simp add: order_by_created_at_desc_def desc_key_def example_defs)
  note first = miss_ok [OF f l, unfolded o]
  have h1: "member ''source'' (body (fst (get_api_tasks (quiet 1000000) ?w))) = Some (JStr ''database'')"
    using first by (simp add: member_def)
  have h2: "now (quiet 1000000) \<le> now (quiet 26000000)"
    and h3: "now (quiet 26000000) \<le> now (quiet 1000000) + 60000000"
    and h4: "fails (quiet 26000000) (Redis_get cacheKey) = None"
    by (simp_all add: quiet_def)
  have d1: "member ''data'' (body (fst (get_api_tasks (quiet 1000000) ?w))) = Some (rows_js (tasks ?w))"
    using first by (simp add: member_def)
  have "lookup (quiet 26000000) (snd (get_api_tasks (quiet 1000000) ?w)) cacheKey
          = Some (JSON_stringify (rows_js (tasks ?w)))"
    using first by (simp add: lookup_def expired_def millis_def quiet_def)
  from hit_ok [OF h4 this JSON_parse_stringify]
  have d2: "member ''data'' (body (fst (get_api_tasks (quiet 26000000)
        (snd (get_api_tasks (quiet 1000000) ?w))))) = Some (toJSON (rows_js (tasks ?w)))"
    by (simp add: member_def)
  from second_list_is_cached_and_identical [OF h1 h2 h3 h4] h1 h2 h3 h4 d1 d2
  show ?thesis by simp
qed

subsection \<open>C8\<close>

text \<open>
  C8. Whatever requests the server handles, in a table whose rows have both timestamps
  with \<^verbatim>\<open>updated_at >= created_at\<close> and pairwise different ids this stays so; the rows
  that were there are there unchanged, in their place (no request changes or removes a
  row, so an id once given is never changed); and the id of every row added is a value
  that the sequence of the store took during these requests. The table that \<^verbatim>\<open>01-init.sql\<close>
  creates is such a table.
\<close>

theorem store_invariant:
  assumes "store_ok w"
  shows "store_ok (run rs w)
     \<and> take (length (tasks w)) (tasks (run rs w)) = tasks w
     \<and> (\<forall>r \<in> set (drop (length (tasks w)) (tasks (run rs w))).
           tasks_id_seq w < id' r \<and> id' r \<le> tasks_id_seq (run rs w))"
  using assms run_new_ids [of _ w rs] by (simp add: run_store_ok run_prefix)

text \<open>
  Five requests on the sample table: a create, a list, a create without title (which uses
  up the id 6), a create while Redis is unreachable (stored with the id 7), a health check.
\<close>

theorem store_invariant_witness:
  "store_ok (init_script 0)
   \<and> store_ok (run [(POST_api_tasks (Some ''A'') (Some ''d1''), quiet 5000),
                    (GET_api_tasks, quiet 6000),
                    (POST_api_tasks None None, quiet 7000),
                    (POST_api_tasks (Some ''B'') None, redis_down 8000),
                    (GET_health, redis_down 9000)] (init_script 0))
   \<and> map id' (tasks (run [(POST_api_tasks (Some ''A'') (Some ''d1''), quiet 5000),
                    (GET_api_tasks, quiet 6000),
                    (POST_api_tasks None None, quiet 7000),
                    (POST_api_tasks (Some ''B'') None, redis_down 8000),
                    (GET_health, redis_down 9000)] (init_script 0))) = [1, 2, 3, 4, 5, 7]
   \<and> take 4 (tasks (run [(POST_api_tasks (Some ''A'') (Some ''d1''), quiet 5000),
                    (GET_api_tasks, quiet 6000),
                    (POST_api_tasks None None, quiet 7000),
                    (POST_api_tasks (Some ''B'') None, redis_down 8000),
                    (GET_health, redis_down 9000)] (init_script 0))) = tasks (init_script 0)"
proof -
  have h: "store_ok (init_script 0)"
    by (simp add: store_ok_def timestamps_ordered_def example_defs)
  have l: "length (tasks (init_script 0)) = 4" by (simp add: init_script_def)
  let ?rs = "[(POST_api_tasks (Some ''A'') (Some ''d1''), quiet 5000),
                    (GET_api_tasks, quiet 6000),
                    (POST_api_tasks None None, quiet 7000),
                    (POST_api_tasks (Some ''B'') None, redis_down 8000),
                    (GET_health, redis_down 9000)]"
  have i: "map id' (tasks (run ?rs (init_script 0))) = [1, 2, 3, 4, 5, 7]"
    by (simp add: model_defs example_defs get_health_def)
  note store_invariant [OF h, of ?rs, unfolded l]
  with h i show ?thesis by blast
qed

subsection \<open>C9\<close>

text \<open>
  C9. A list call that finds a value under \<^verbatim>\<open>tasks:all\<close> (an entry that has not expired,
  with a string that is not empty) issues the \<^verbatim>\<open>GET\<close> and nothing else: no query goes to
  the store, and the Redis keys, with the value and the expiry time of the entry, and the
  table are as before.
\<close>

theorem hit_leaves_cache_unchanged:
  assumes "fails e (Redis_get cacheKey) = None"
    and "redis w cacheKey = Some (s, expiry)" and "\<not> expired e expiry" and "s \<noteq> []"
  shows "snd (get_api_tasks e w) = w\<lparr>calls := calls w @ [Redis_get cacheKey]\<rparr>
     \<and> redis (snd (get_api_tasks e w)) cacheKey = Some (s, expiry)"
  using assms
  by (auto simp: get_api_tasks_def redis_get_def issue_def lookup_def split: option.splits)

text \<open>The cache filled at time 0 from the empty store, read again 30 seconds later.\<close>

theorem hit_leaves_cache_unchanged_witness:
  "fails (quiet 30000000) (Redis_get cacheKey) = None
   \<and> redis (snd (get_api_tasks (quiet 0) empty_db)) cacheKey = Some (''[]'', Some 60000)
   \<and> \<not> expired (quiet 30000000) (Some 60000)
   \<and> redis (snd (get_api_tasks (quiet 30000000) (snd (get_api_tasks (quiet 0) empty_db)))) cacheKey
       = Some (''[]'', Some 60000)
   \<and> calls (snd (get_api_tasks (quiet 30000000) (snd (get_api_tasks (quiet 0) empty_db))))
       = calls (snd (get_api_tasks (quiet 0) empty_db)) @ [Redis_get cacheKey]"
proof -
  let ?w = "snd (get_api_tasks (quiet 0) empty_db)"
  have f: "fails (quiet 30000000) (Redis_get cacheKey) = None" by (simp add: quiet_def)
  have c: "redis ?w cacheKey = Some (''[]'', Some 60000)"
    by (simp add: warm_cache cacheKey_def)
  have x: "\<not> expired (quiet 30000000) (Some 60000)"
    by (simp add: expired_def quiet_def millis_def)
  have n: "''[]'' \<noteq> []" by simp
  from hit_leaves_cache_unchanged [OF f c x n] f c x show ?thesis by simp
qed

subsection \<open>C10\<close>

text \<open>
  C10 fails on the program by a missed case: \<^verbatim>\<open>server.js\<close> catches the rejection of
  \<^verbatim>\<open>redisClient.connect()\<close> and every error inside its two task handlers, but registers no
  listener for the \<^verbatim>\<open>'error'\<close> event of the Redis client. When the connection to Redis is
  lost, that event ends the process, and the \<^verbatim>\<open>GET /health\<close> that follows is not answered,
  although its handler touches neither the store nor the cache.
\<close>

theorem health_unanswered_after_redis_error:
  "running (start (init_script 0))
   \<and> fst (serve (Request GET_health (quiet 5000)) (start (init_script 0))) =
       Some \<lparr>status = 200,
             body = Json (JObj [(''status'', JStr ''healthy''), (''timestamp'', JDate 5)])\<rparr>
   \<and> \<not> running (snd (serve (Redis_client_error ''Socket closed unexpectedly'')
                         (start (init_script 0))))
   \<and> fst (serve (Request GET_health (quiet 9000))
            (snd (serve (Redis_client_error ''Socket closed unexpectedly'')
                    (start (init_script 0))))) = None"
  by (simp add: start_def get_health_def quiet_def millis_def)

end
